theory Spec2Isabelle
  imports Complex_Main
begin

section \<open>JavaScript values as the retry utilities see them\<close>

text \<open>
  The retry utilities take \<^verbatim>\<open>error: any\<close>. The values modelled are undefined, null,
  booleans, numbers, strings and plain objects holding data properties; functions,
  arrays, getters and symbols are outside the model. A number is NaN, one of the two
  infinities, or a finite value given as the real it denotes; the sign of zero is not
  modelled. Every arithmetic operation rounds its exact result to the nearest double.
  Strings are lists of code units below 256.
\<close>

datatype jserror = TypeError

datatype jsnum = NaN | Num real | PosInf | NegInf

datatype jsval =
    JUndefined
  | JNull
  | JBool bool
  | JNumber jsnum
  | JString string
  | JObject "(string \<times> jsval) list"

text \<open>
  Two things the language runtime decides are parameters of the model: the decimal
  rendering of a number (Number::toString) and the numeric reading of a string
  (StringToNumber).
\<close>

record js_runtime =
  NumberToString :: "real \<Rightarrow> string"
  StringToNumber :: "string \<Rightarrow> jsnum"

subsection \<open>Double arithmetic\<close>

text \<open>
  The finite doubles are the reals \<open>\<plusminus> m \<times> 2\<^sup>e\<close> with a whole \<open>m\<close> below \<open>2\<^sup>5\<^sup>3\<close>
  and \<open>e\<close> from \<open>-1074\<close> to \<open>971\<close>. \<open>units\<close> is the magnitude of a real in units of
  the least positive double \<open>2\<^sup>-\<^sup>1\<^sup>0\<^sup>7\<^sup>4\<close>, and \<open>k\<close> below is \<open>e + 1074\<close>.
\<close>

definition units :: "real \<Rightarrow> real" where
  "units x = \<bar>x\<bar> * 2 ^ 1074"

definition is_double :: "real \<Rightarrow> bool" where
  "is_double x = (\<exists>k \<in> {0 .. 2045 :: nat}. units x / 2 ^ k \<in> \<int> \<and> units x / 2 ^ k < 2 ^ 53)"

text \<open>
  The exponent of a magnitude \<open>a\<close> given in units: the greatest \<open>k\<close> up to the bound
  with \<open>2\<^sup>k\<^sup>+\<^sup>5\<^sup>2 \<le> a\<close>, and 0 below \<open>2\<^sup>5\<^sup>3\<close> units (the subnormal numbers and the least
  normal binade).
\<close>

primrec find_exponent :: "nat \<Rightarrow> real \<Rightarrow> nat" where
  "find_exponent 0 a = 0"
| "find_exponent (Suc k) a = (if 2 ^ (k + 53) \<le> a then Suc k else find_exponent k a)"

text \<open>The nearest whole number, a tie going to the even one.\<close>

definition round_half_even :: "real \<Rightarrow> int" where
  "round_half_even q =
     (let f = \<lfloor>q\<rfloor> in
      if q - of_int f < 1 / 2 then f
      else if 1 / 2 < q - of_int f then f + 1
      else if even f then f else f + 1)"

text \<open>
  Round to nearest, ties to even: the magnitude is rounded to a whole number of units
  in the last place of its exponent.
\<close>

definition nearest_double :: "real \<Rightarrow> real" where
  "nearest_double z =
     (let k = find_exponent 2045 (units z)
      in sgn z * (of_int (round_half_even (units z / 2 ^ k)) * 2 ^ k / 2 ^ 1074))"

text \<open>
  The number an operation stores when its exact result is \<open>z\<close>: an infinity from
  \<open>2\<^sup>1\<^sup>0\<^sup>2\<^sup>4 - 2\<^sup>9\<^sup>7\<^sup>0\<close> on, and the nearest double below that.
\<close>

definition round_result :: "real \<Rightarrow> jsnum" where
  "round_result z =
     (if 2 ^ 1024 - 2 ^ 970 \<le> \<bar>z\<bar> then (if 0 < z then PosInf else NegInf)
      else Num (nearest_double z))"

text \<open>\<^verbatim>\<open>a + b\<close>, \<^verbatim>\<open>-a\<close>, \<^verbatim>\<open>a - b\<close> and \<^verbatim>\<open>a * b\<close> on numbers.\<close>

fun js_add :: "jsnum \<Rightarrow> jsnum \<Rightarrow> jsnum" where
  "js_add (Num x) (Num y) = round_result (x + y)"
| "js_add NaN b = NaN"
| "js_add a NaN = NaN"
| "js_add PosInf NegInf = NaN"
| "js_add NegInf PosInf = NaN"
| "js_add PosInf b = PosInf"
| "js_add a PosInf = PosInf"
| "js_add NegInf b = NegInf"
| "js_add a NegInf = NegInf"

fun js_neg :: "jsnum \<Rightarrow> jsnum" where
  "js_neg NaN = NaN"
| "js_neg (Num x) = Num (- x)"
| "js_neg PosInf = NegInf"
| "js_neg NegInf = PosInf"

definition js_sub :: "jsnum \<Rightarrow> jsnum \<Rightarrow> jsnum" where
  "js_sub a b = js_add a (js_neg b)"

fun js_mul :: "jsnum \<Rightarrow> jsnum \<Rightarrow> jsnum" where
  "js_mul (Num x) (Num y) = round_result (x * y)"
| "js_mul NaN b = NaN"
| "js_mul a NaN = NaN"
| "js_mul (Num x) PosInf = (if x = 0 then NaN else if 0 < x then PosInf else NegInf)"
| "js_mul (Num x) NegInf = (if x = 0 then NaN else if 0 < x then NegInf else PosInf)"
| "js_mul PosInf (Num y) = (if y = 0 then NaN else if 0 < y then PosInf else NegInf)"
| "js_mul NegInf (Num y) = (if y = 0 then NaN else if 0 < y then NegInf else PosInf)"
| "js_mul PosInf PosInf = PosInf"
| "js_mul PosInf NegInf = NegInf"
| "js_mul NegInf PosInf = NegInf"
| "js_mul NegInf NegInf = PosInf"

text \<open>\<^verbatim>\<open>a / c\<close> for a literal \<open>c\<close> other than 0, as both divisions of the source are.\<close>

fun js_div_by :: "jsnum \<Rightarrow> real \<Rightarrow> jsnum" where
  "js_div_by NaN c = NaN"
| "js_div_by (Num x) c = round_result (x / c)"
| "js_div_by PosInf c = (if 0 < c then PosInf else NegInf)"
| "js_div_by NegInf c = (if 0 < c then NegInf else PosInf)"

text \<open>\<^verbatim>\<open>a > b\<close>: false when either side is NaN.\<close>

fun js_gt :: "jsnum \<Rightarrow> jsnum \<Rightarrow> bool" where
  "js_gt (Num x) (Num y) = (y < x)"
| "js_gt NaN b = False"
| "js_gt a NaN = False"
| "js_gt PosInf PosInf = False"
| "js_gt PosInf b = True"
| "js_gt a PosInf = False"
| "js_gt NegInf b = False"
| "js_gt a NegInf = True"

text \<open>\<^verbatim>\<open>Math.min(a, b)\<close> and \<^verbatim>\<open>Math.max(a, b)\<close>: NaN when either argument is.\<close>

definition Math_min :: "jsnum \<Rightarrow> jsnum \<Rightarrow> jsnum" where
  "Math_min a b = (if a = NaN \<or> b = NaN then NaN else if js_gt a b then b else a)"

definition Math_max :: "jsnum \<Rightarrow> jsnum \<Rightarrow> jsnum" where
  "Math_max a b = (if a = NaN \<or> b = NaN then NaN else if js_gt b a then b else a)"

text \<open>
  \<^verbatim>\<open>Math.pow(2, attempt)\<close> for a whole attempt from 0: the power is a double up to
  \<open>2\<^sup>1\<^sup>0\<^sup>2\<^sup>3\<close> and Infinity beyond.
\<close>

definition Math_pow2 :: "nat \<Rightarrow> jsnum" where
  "Math_pow2 attempt = (if attempt < 1024 then Num (2 ^ attempt) else PosInf)"

text \<open>
  \<^verbatim>\<open>Math.random()\<close> returns a number from 0 up to but not including 1: the model
  takes a real seed and draws its fractional part.
\<close>

definition Math_random :: "real \<Rightarrow> jsnum" where
  "Math_random seed = Num (frac seed)"

text \<open>
  The doubles that the literals \<^verbatim>\<open>0.1\<close> and \<^verbatim>\<open>1.2\<close> of the source denote, and those
  of 0.2, 0.3 and 0.15 for the instances below.
\<close>

definition literal_0_1 :: real where
  "literal_0_1 = 3602879701896397 / 36028797018963968"

definition literal_1_2 :: real where
  "literal_1_2 = 5404319552844595 / 4503599627370496"

definition literal_0_2 :: real where
  "literal_0_2 = 3602879701896397 / 18014398509481984"

definition literal_0_3 :: real where
  "literal_0_3 = 5404319552844595 / 18014398509481984"

definition literal_0_15 :: real where
  "literal_0_15 = 5404319552844595 / 36028797018963968"

subsection \<open>Values\<close>

text \<open>ToBoolean: what \<^verbatim>\<open>if (v)\<close>, \<^verbatim>\<open>v || w\<close> and \<^verbatim>\<open>v && w\<close> test.\<close>

fun truthy :: "jsval \<Rightarrow> bool" where
  "truthy JUndefined = False"
| "truthy JNull = False"
| "truthy (JBool b) = b"
| "truthy (JNumber NaN) = False"
| "truthy (JNumber (Num x)) = (x \<noteq> 0)"
| "truthy (JNumber PosInf) = True"
| "truthy (JNumber NegInf) = True"
| "truthy (JString s) = (s \<noteq> [])"
| "truthy (JObject kvs) = True"

text \<open>\<^verbatim>\<open>a || b\<close> on values.\<close>

definition js_or :: "jsval \<Rightarrow> jsval \<Rightarrow> jsval" where
  "js_or a b = (if truthy a then a else b)"

text \<open>
  \<^verbatim>\<open>v.p\<close>: reading a property of undefined or null raises TypeError; an object
  gives its own data property or undefined. The names read by this module (status,
  response, message, code, headers and the header names) are no properties of a
  primitive, so a primitive gives undefined.
\<close>

fun get_prop :: "jsval \<Rightarrow> string \<Rightarrow> jserror + jsval" where
  "get_prop JUndefined p = Inl TypeError"
| "get_prop JNull p = Inl TypeError"
| "get_prop (JObject kvs) p = Inr (case map_of kvs p of None \<Rightarrow> JUndefined | Some v \<Rightarrow> v)"
| "get_prop v p = Inr JUndefined"

text \<open>\<^verbatim>\<open>v?.p\<close> and \<^verbatim>\<open>v?.[p]\<close>: undefined on undefined or null.\<close>

fun opt_prop :: "jsval \<Rightarrow> string \<Rightarrow> jsval" where
  "opt_prop (JObject kvs) p = (case map_of kvs p of None \<Rightarrow> JUndefined | Some v \<Rightarrow> v)"
| "opt_prop v p = JUndefined"

text \<open>
  OrdinaryToPrimitive on a plain object: \<^verbatim>\<open>Object.prototype.valueOf\<close> returns the
  object itself, so the result comes from \<^verbatim>\<open>toString\<close>. An own data property named
  toString shadows the inherited method and is not callable: then no method yields a
  primitive and the conversion raises TypeError.
\<close>

definition ObjectToPrimitive :: "(string \<times> jsval) list \<Rightarrow> jserror + string" where
  "ObjectToPrimitive kvs =
     (case map_of kvs ''toString'' of
        None \<Rightarrow> Inr ''[object Object]''
      | Some m \<Rightarrow> Inl TypeError)"

fun ToNumber :: "js_runtime \<Rightarrow> jsval \<Rightarrow> jserror + jsnum" where
  "ToNumber rt JUndefined = Inr NaN"
| "ToNumber rt JNull = Inr (Num 0)"
| "ToNumber rt (JBool b) = Inr (Num (if b then 1 else 0))"
| "ToNumber rt (JNumber n) = Inr n"
| "ToNumber rt (JString s) = Inr (StringToNumber rt s)"
| "ToNumber rt (JObject kvs) =
     (case ObjectToPrimitive kvs of Inl e \<Rightarrow> Inl e | Inr s \<Rightarrow> Inr NaN)"

fun ToString :: "js_runtime \<Rightarrow> jsval \<Rightarrow> jserror + string" where
  "ToString rt JUndefined = Inr ''undefined''"
| "ToString rt JNull = Inr ''null''"
| "ToString rt (JBool b) = Inr (if b then ''true'' else ''false'')"
| "ToString rt (JNumber NaN) = Inr ''NaN''"
| "ToString rt (JNumber (Num x)) = Inr (NumberToString rt x)"
| "ToString rt (JNumber PosInf) = Inr ''Infinity''"
| "ToString rt (JNumber NegInf) = Inr ''-Infinity''"
| "ToString rt (JString s) = Inr s"
| "ToString rt (JObject kvs) = ObjectToPrimitive kvs"

text \<open>\<^verbatim>\<open>v === c\<close> for a number literal and for a string literal: no coercion.\<close>

definition strict_eq_num :: "jsval \<Rightarrow> real \<Rightarrow> bool" where
  "strict_eq_num v c = (v = JNumber (Num c))"

definition strict_eq_str :: "jsval \<Rightarrow> string \<Rightarrow> bool" where
  "strict_eq_str v s = (v = JString s)"

text \<open>
  \<^verbatim>\<open>v >= c\<close> and \<^verbatim>\<open>v < c\<close> for a number literal: the value is converted by
  ToNumber, and every comparison with NaN is false.
\<close>

definition js_ge :: "js_runtime \<Rightarrow> jsval \<Rightarrow> real \<Rightarrow> jserror + bool" where
  "js_ge rt v c =
     (case ToNumber rt v of
        Inl e \<Rightarrow> Inl e
      | Inr NaN \<Rightarrow> Inr False
      | Inr (Num x) \<Rightarrow> Inr (c \<le> x)
      | Inr PosInf \<Rightarrow> Inr True
      | Inr NegInf \<Rightarrow> Inr False)"

definition js_lt :: "js_runtime \<Rightarrow> jsval \<Rightarrow> real \<Rightarrow> jserror + bool" where
  "js_lt rt v c =
     (case ToNumber rt v of
        Inl e \<Rightarrow> Inl e
      | Inr NaN \<Rightarrow> Inr False
      | Inr (Num x) \<Rightarrow> Inr (x < c)
      | Inr PosInf \<Rightarrow> Inr False
      | Inr NegInf \<Rightarrow> Inr True)"

subsection \<open>Strings\<close>

text \<open>\<^verbatim>\<open>String.prototype.toLowerCase\<close> on the ASCII letters.\<close>

definition lower_char :: "char \<Rightarrow> char" where
  "lower_char c =
     (case map_of (zip ''ABCDEFGHIJKLMNOPQRSTUVWXYZ'' ''abcdefghijklmnopqrstuvwxyz'') c of
        None \<Rightarrow> c
      | Some l \<Rightarrow> l)"

definition toLowerCase :: "string \<Rightarrow> string" where
  "toLowerCase s = map lower_char s"

fun starts_with :: "string \<Rightarrow> string \<Rightarrow> bool" where
  "starts_with s [] = True"
| "starts_with [] (p # ps) = False"
| "starts_with (c # cs) (p # ps) = (c = p \<and> starts_with cs ps)"

text \<open>\<^verbatim>\<open>s.includes(sub)\<close>.\<close>

fun str_includes :: "string \<Rightarrow> string \<Rightarrow> bool" where
  "str_includes [] sub = (sub = [])"
| "str_includes (c # cs) sub = (starts_with (c # cs) sub \<or> str_includes cs sub)"

text \<open>
  \<^verbatim>\<open>parseInt(s, 10)\<close>: leading white space is skipped, one sign is read, then the
  longest run of decimal digits; no digit gives NaN, and the whole number read is
  stored as a double.
\<close>

definition is_space :: "char \<Rightarrow> bool" where
  "is_space c = (c \<in> set [CHR 0x09, CHR 0x0A, CHR 0x0B, CHR 0x0C, CHR 0x0D, CHR 0x20, CHR 0xA0])"

definition digit_value :: "char \<Rightarrow> nat option" where
  "digit_value c = map_of (zip ''0123456789'' [0, 1, 2, 3, 4, 5, 6, 7, 8, 9]) c"

definition is_digit :: "char \<Rightarrow> bool" where
  "is_digit c = (digit_value c \<noteq> None)"

definition digits_value :: "string \<Rightarrow> nat" where
  "digits_value ds = foldl (\<lambda>acc c. 10 * acc + (case digit_value c of None \<Rightarrow> 0 | Some d \<Rightarrow> d)) 0 ds"

definition parseInt10 :: "string \<Rightarrow> jsnum" where
  "parseInt10 inputString =
     (let S = dropWhile is_space inputString;
          negative = starts_with S ''-'';
          S' = (if starts_with S ''+'' \<or> starts_with S ''-'' then tl S else S);
          Z = takeWhile is_digit S'
      in if Z = [] then NaN
         else round_result ((if negative then - 1 else 1) * real (digits_value Z)))"

section \<open>Error classification and backoff\<close>

datatype ErrorType =
    RATE_LIMIT
  | SERVER_ERROR
  | NETWORK_ERROR
  | AUTH_ERROR
  | CONTEXT_LENGTH_ERROR
  | UNKNOWN_ERROR

text \<open>The error-type specific multiplier of the backoff (the \<^verbatim>\<open>switch\<close>).\<close>

fun multiplier :: "ErrorType \<Rightarrow> real" where
  "multiplier RATE_LIMIT = 2"
| "multiplier SERVER_ERROR = 1.5"
| "multiplier NETWORK_ERROR = literal_1_2"
| "multiplier AUTH_ERROR = 1"
| "multiplier CONTEXT_LENGTH_ERROR = 1"
| "multiplier UNKNOWN_ERROR = 1"

text \<open>
  The last two statements of \<^verbatim>\<open>calculateRetryDelay\<close>:
  \<^verbatim>\<open>jitter = delay * jitterFactor * (Math.random() * 2 - 1)\<close> and
  \<^verbatim>\<open>Math.max(0, delay + jitter)\<close>.
\<close>

definition add_jitter :: "real \<Rightarrow> real \<Rightarrow> jsnum \<Rightarrow> jsnum" where
  "add_jitter seed jitterFactor delay =
     (let jitter = js_mul (js_mul delay (Num jitterFactor))
                     (js_sub (js_mul (Math_random seed) (Num 2)) (Num 1))
      in Math_max (Num 0) (js_add delay jitter))"

text \<open>
  The delay a retry-after value gives: a value above \<^verbatim>\<open>Date.now() / 1000\<close> is a Unix
  timestamp in seconds, anything else a number of seconds. \<open>now\<close> and \<open>now'\<close> are the
  two readings of the clock.
\<close>

definition retry_after_delay :: "real \<Rightarrow> real \<Rightarrow> jsnum \<Rightarrow> jsnum" where
  "retry_after_delay now now' retryValue =
     (if js_gt retryValue (js_div_by (Num now) 1000)
      then js_sub (js_mul retryValue (Num 1000)) (Num now')
      else js_mul retryValue (Num 1000))"

text \<open>
  \<^verbatim>\<open>calculateRetryDelay(attempt, baseDelay, maxDelay, errorType, retryAfterHeader?, jitterFactor = 0.1)\<close>.
  \<open>seed\<close> gives the value of \<^verbatim>\<open>Math.random()\<close>; \<open>attempt\<close> counts retries from 0.
\<close>

definition calculateRetryDelay ::
  "js_runtime \<Rightarrow> real \<Rightarrow> real \<Rightarrow> real \<Rightarrow> nat \<Rightarrow> real \<Rightarrow> real \<Rightarrow> ErrorType \<Rightarrow> jsval \<Rightarrow> real option
     \<Rightarrow> jserror + jsnum" where
  "calculateRetryDelay rt now now' seed attempt baseDelay maxDelay errorType retryAfterHeader jitterFactor =
     (let jf = (case jitterFactor of None \<Rightarrow> literal_0_1 | Some j \<Rightarrow> j) in
      if truthy retryAfterHeader then
        (case ToString rt retryAfterHeader of
           Inl e \<Rightarrow> Inl e
         | Inr s \<Rightarrow> Inr (add_jitter seed jf (retry_after_delay now now' (parseInt10 s))))
      else
        Inr (add_jitter seed jf
               (Math_min (Num maxDelay)
                  (js_mul (js_mul (Num baseDelay) (Math_pow2 attempt))
                     (Num (multiplier errorType))))))"

text \<open>
  The two optional reads at the head of \<^verbatim>\<open>classifyError\<close>.
  \<^verbatim>\<open>error?.status || error?.response?.status\<close> never raises.
  \<^verbatim>\<open>error?.message?.toLowerCase() || ""\<close>: an absent or null message gives the empty
  string, a string its lower-case form; any other message has no callable
  \<^verbatim>\<open>toLowerCase\<close>, and the call raises TypeError.
\<close>

definition status_of :: "jsval \<Rightarrow> jsval" where
  "status_of error = js_or (opt_prop error ''status'') (opt_prop (opt_prop error ''response'') ''status'')"

definition message_of :: "jsval \<Rightarrow> jserror + string" where
  "message_of error =
     (case opt_prop error ''message'' of
        JUndefined \<Rightarrow> Inr []
      | JNull \<Rightarrow> Inr []
      | JString s \<Rightarrow> Inr (toLowerCase s)
      | JBool b \<Rightarrow> Inl TypeError
      | JNumber n \<Rightarrow> Inl TypeError
      | JObject kvs \<Rightarrow> Inl TypeError)"

text \<open>\<^verbatim>\<open>status >= 500 && status < 600\<close>, the right operand read only when the left holds.\<close>

definition status_5xx :: "js_runtime \<Rightarrow> jsval \<Rightarrow> jserror + bool" where
  "status_5xx rt status =
     (case js_ge rt status 500 of
        Inl e \<Rightarrow> Inl e
      | Inr False \<Rightarrow> Inr False
      | Inr True \<Rightarrow> js_lt rt status 600)"

text \<open>
  \<^verbatim>\<open>classifyError(error)\<close>. The last test reads \<^verbatim>\<open>error.code\<close> without the optional
  chain, and only when no message keyword of the network rule matched.
\<close>

definition classifyError :: "js_runtime \<Rightarrow> jsval \<Rightarrow> jserror + ErrorType" where
  "classifyError rt error =
     (let status = status_of error in
      case message_of error of
        Inl e \<Rightarrow> Inl e
      | Inr message \<Rightarrow>
          if strict_eq_num status 429 \<or> str_includes message ''rate limit''
             \<or> str_includes message ''too many requests''
          then Inr RATE_LIMIT
          else
            (case status_5xx rt status of
               Inl e \<Rightarrow> Inl e
             | Inr True \<Rightarrow> Inr SERVER_ERROR
             | Inr False \<Rightarrow>
                 if strict_eq_num status 401 \<or> strict_eq_num status 403
                 then Inr AUTH_ERROR
                 else if str_includes message ''context length'' \<or> str_includes message ''token limit''
                         \<or> str_includes message ''maximum context'' \<or> strict_eq_num status 413
                 then Inr CONTEXT_LENGTH_ERROR
                 else if str_includes message ''network'' \<or> str_includes message ''timeout''
                         \<or> str_includes message ''connection''
                 then Inr NETWORK_ERROR
                 else
                   (case get_prop error ''code'' of
                      Inl e \<Rightarrow> Inl e
                    | Inr code \<Rightarrow>
                        if strict_eq_str code ''ECONNRESET'' \<or> strict_eq_str code ''ETIMEDOUT''
                        then Inr NETWORK_ERROR
                        else Inr UNKNOWN_ERROR)))"

subsection \<open>Retry options and eligibility\<close>

text \<open>\<^verbatim>\<open>ModelInfo\<close>: the two prices read here, each optional.\<close>

record ModelInfo =
  inputPrice :: "real option"
  outputPrice :: "real option"

text \<open>
  \<^verbatim>\<open>EnhancedRetryOptions\<close>: every property is optional, None is an absent property.
\<close>

record EnhancedRetryOptions =
  maxRetries :: "int option"
  baseDelay :: "real option"
  maxDelay :: "real option"
  retryAllErrors :: "bool option"
  costAwareRetry :: "bool option"
  modelInfo :: "ModelInfo option"
  maxCostThreshold :: "real option"
  customRetryCondition :: "(jsval \<Rightarrow> nat \<Rightarrow> bool) option"
  jitterFactor :: "real option"

definition no_options :: EnhancedRetryOptions where
  "no_options =
     \<lparr> maxRetries = None, baseDelay = None, maxDelay = None, retryAllErrors = None,
       costAwareRetry = None, modelInfo = None, maxCostThreshold = None,
       customRetryCondition = None, jitterFactor = None \<rparr>"

text \<open>\<^verbatim>\<open>shouldRetryError(errorType, attempt, maxRetries, options = {})\<close>.\<close>

definition shouldRetryError :: "ErrorType \<Rightarrow> nat \<Rightarrow> int \<Rightarrow> EnhancedRetryOptions \<Rightarrow> bool" where
  "shouldRetryError errorType attempt maxRetries' options' =
     (if int attempt \<ge> maxRetries' then False
      else if errorType = AUTH_ERROR \<or> errorType = CONTEXT_LENGTH_ERROR then False
      else if errorType = RATE_LIMIT \<or> errorType = SERVER_ERROR then True
      else if errorType = NETWORK_ERROR then int attempt < min maxRetries' 3
      else (case retryAllErrors options' of None \<Rightarrow> False | Some b \<Rightarrow> b))"

text \<open>\<^verbatim>\<open>estimateRetryCost(modelInfo, estimatedInputTokens, estimatedOutputTokens = 0)\<close>.\<close>

definition estimateRetryCost :: "ModelInfo \<Rightarrow> real \<Rightarrow> real option \<Rightarrow> jsnum" where
  "estimateRetryCost modelInfo' estimatedInputTokens estimatedOutputTokens =
     (let inputCost = js_mul (js_div_by (Num estimatedInputTokens) 1000000)
                        (Num (case inputPrice modelInfo' of None \<Rightarrow> 0 | Some p \<Rightarrow> p));
          outputCost = js_mul
                         (js_div_by (Num (case estimatedOutputTokens of None \<Rightarrow> 0 | Some n \<Rightarrow> n))
                            1000000)
                         (Num (case outputPrice modelInfo' of None \<Rightarrow> 0 | Some p \<Rightarrow> p))
      in js_add inputCost outputCost)"

subsection \<open>The retry strategy\<close>

text \<open>
  The object \<^verbatim>\<open>{ ...DEFAULT_ENHANCED_OPTIONS, ...options }\<close> the constructor stores:
  the seven defaulted properties are always present, the model information and the
  custom condition stay optional.
\<close>

record StrategyOptions =
  so_maxRetries :: int
  so_baseDelay :: real
  so_maxDelay :: real
  so_retryAllErrors :: bool
  so_costAwareRetry :: bool
  so_modelInfo :: "ModelInfo option"
  so_maxCostThreshold :: real
  so_customRetryCondition :: "(jsval \<Rightarrow> nat \<Rightarrow> bool) option"
  so_jitterFactor :: real

record EnhancedRetryStrategy =
  options :: StrategyOptions
  totalRetryCost :: jsnum

definition new_EnhancedRetryStrategy :: "EnhancedRetryOptions \<Rightarrow> EnhancedRetryStrategy" where
  "new_EnhancedRetryStrategy given =
     \<lparr> options =
         \<lparr> so_maxRetries = (case maxRetries given of None \<Rightarrow> 5 | Some v \<Rightarrow> v),
           so_baseDelay = (case baseDelay given of None \<Rightarrow> 1000 | Some v \<Rightarrow> v),
           so_maxDelay = (case maxDelay given of None \<Rightarrow> 30000 | Some v \<Rightarrow> v),
           so_retryAllErrors = (case retryAllErrors given of None \<Rightarrow> False | Some v \<Rightarrow> v),
           so_costAwareRetry = (case costAwareRetry given of None \<Rightarrow> True | Some v \<Rightarrow> v),
           so_modelInfo = modelInfo given,
           so_maxCostThreshold = (case maxCostThreshold given of None \<Rightarrow> 1.0 | Some v \<Rightarrow> v),
           so_customRetryCondition = customRetryCondition given,
           so_jitterFactor = (case jitterFactor given of None \<Rightarrow> literal_0_1 | Some v \<Rightarrow> v) \<rparr>,
       totalRetryCost = Num 0 \<rparr>"

text \<open>The stored options read at the type \<^verbatim>\<open>EnhancedRetryOptions\<close>, as \<^verbatim>\<open>shouldRetryError\<close> takes them.\<close>

definition as_options :: "StrategyOptions \<Rightarrow> EnhancedRetryOptions" where
  "as_options so =
     \<lparr> maxRetries = Some (so_maxRetries so), baseDelay = Some (so_baseDelay so),
       maxDelay = Some (so_maxDelay so), retryAllErrors = Some (so_retryAllErrors so),
       costAwareRetry = Some (so_costAwareRetry so), modelInfo = so_modelInfo so,
       maxCostThreshold = Some (so_maxCostThreshold so),
       customRetryCondition = so_customRetryCondition so,
       jitterFactor = Some (so_jitterFactor so) \<rparr>"

text \<open>The string values of the enum, and a number inside a template string.\<close>

fun ErrorType_value :: "ErrorType \<Rightarrow> string" where
  "ErrorType_value RATE_LIMIT = ''rate_limit''"
| "ErrorType_value SERVER_ERROR = ''server_error''"
| "ErrorType_value NETWORK_ERROR = ''network_error''"
| "ErrorType_value AUTH_ERROR = ''auth_error''"
| "ErrorType_value CONTEXT_LENGTH_ERROR = ''context_length_error''"
| "ErrorType_value UNKNOWN_ERROR = ''unknown_error''"

fun show_num :: "js_runtime \<Rightarrow> jsnum \<Rightarrow> string" where
  "show_num rt NaN = ''NaN''"
| "show_num rt (Num x) = NumberToString rt x"
| "show_num rt PosInf = ''Infinity''"
| "show_num rt NegInf = ''-Infinity''"

text \<open>The object \<^verbatim>\<open>shouldRetry\<close> returns.\<close>

record RetryResult =
  r_shouldRetry :: bool
  r_delay :: jsnum
  r_reason :: string

text \<open>
  \<^verbatim>\<open>error?.headers?.["retry-after"] || error?.headers?.["x-ratelimit-reset"] || error?.headers?.["ratelimit-reset"]\<close>.
\<close>

definition retryAfter_of :: "jsval \<Rightarrow> jsval" where
  "retryAfter_of error =
     js_or (js_or (opt_prop (opt_prop error ''headers'') ''retry-after'')
                  (opt_prop (opt_prop error ''headers'') ''x-ratelimit-reset''))
           (opt_prop (opt_prop error ''headers'') ''ratelimit-reset'')"

text \<open>
  The cost-aware check of \<^verbatim>\<open>shouldRetry\<close>: Inl is the denial it returns, Inr the
  strategy it goes on with (the cost added when the check ran). \<open>estimatedTokens\<close> is
  None when the argument is omitted; \<^verbatim>\<open>&& estimatedTokens\<close> holds for a number other
  than 0, and \<^verbatim>\<open>&& this.options.modelInfo\<close> for a present object.
\<close>

definition cost_check ::
  "js_runtime \<Rightarrow> EnhancedRetryStrategy \<Rightarrow> real option \<Rightarrow> RetryResult + EnhancedRetryStrategy" where
  "cost_check rt this estimatedTokens =
     (case (so_costAwareRetry (options this), so_modelInfo (options this), estimatedTokens) of
        (True, Some mi, Some tokens) \<Rightarrow>
          if tokens \<noteq> 0 then
            (let retryCost = estimateRetryCost mi tokens None in
             if js_gt (js_add (totalRetryCost this) retryCost)
                  (Num (so_maxCostThreshold (options this)))
             then Inl \<lparr> r_shouldRetry = False, r_delay = Num 0,
                       r_reason = ''Retry cost threshold exceeded ($''
                                  @ NumberToString rt (so_maxCostThreshold (options this))
                                  @ '')'' \<rparr>
             else Inr (this\<lparr> totalRetryCost := js_add (totalRetryCost this) retryCost \<rparr>))
          else Inr this
      | _ \<Rightarrow> Inr this)"

text \<open>
  \<^verbatim>\<open>EnhancedRetryStrategy.shouldRetry(error, attempt, estimatedTokens?)\<close>. The result
  pairs what the call returns or raises with the strategy after the call.
\<close>

definition shouldRetry ::
  "js_runtime \<Rightarrow> real \<Rightarrow> real \<Rightarrow> real \<Rightarrow> EnhancedRetryStrategy \<Rightarrow> jsval \<Rightarrow> nat \<Rightarrow> real option
     \<Rightarrow> (jserror + RetryResult) \<times> EnhancedRetryStrategy" where
  "shouldRetry rt now now' seed this error attempt estimatedTokens =
     (case classifyError rt error of
        Inl e \<Rightarrow> (Inl e, this)
      | Inr errorType \<Rightarrow>
          if (case so_customRetryCondition (options this) of
                None \<Rightarrow> False
              | Some cond \<Rightarrow> \<not> cond error attempt)
          then (Inr \<lparr> r_shouldRetry = False, r_delay = Num 0,
                      r_reason = ''Custom retry condition failed'' \<rparr>, this)
          else if \<not> shouldRetryError errorType attempt (so_maxRetries (options this))
                      (as_options (options this))
          then (Inr \<lparr> r_shouldRetry = False, r_delay = Num 0,
                      r_reason = ''Error type '' @ ErrorType_value errorType
                                 @ '' not retryable or max attempts reached'' \<rparr>, this)
          else
            (case cost_check rt this estimatedTokens of
               Inl denial \<Rightarrow> (Inr denial, this)
             | Inr this' \<Rightarrow>
                 (case calculateRetryDelay rt now now' seed attempt
                         (so_baseDelay (options this')) (so_maxDelay (options this'))
                         errorType (retryAfter_of error) (Some (so_jitterFactor (options this'))) of
                    Inl e \<Rightarrow> (Inl e, this')
                  | Inr delay \<Rightarrow>
                      (Inr \<lparr> r_shouldRetry = True, r_delay = delay,
                             r_reason = ''Retrying '' @ ErrorType_value errorType @ '' error with ''
                                        @ show_num rt delay @ ''ms delay'' \<rparr>, this'))))"

definition resetCost :: "EnhancedRetryStrategy \<Rightarrow> EnhancedRetryStrategy" where
  "resetCost this = this\<lparr> totalRetryCost := Num 0 \<rparr>"

definition getTotalRetryCost :: "EnhancedRetryStrategy \<Rightarrow> jsnum" where
  "getTotalRetryCost this = totalRetryCost this"

section \<open>The circuit breaker\<close>

datatype CircuitState = Closed | Open | HalfOpen

record CircuitBreaker =
  failures :: nat
  lastFailureTime :: real
  state :: CircuitState
  failureThreshold :: real
  recoveryTimeout :: real

text \<open>\<^verbatim>\<open>new CircuitBreaker(failureThreshold = 5, recoveryTimeout = 60000)\<close>.\<close>

definition new_CircuitBreaker :: "real option \<Rightarrow> real option \<Rightarrow> CircuitBreaker" where
  "new_CircuitBreaker threshold timeout =
     \<lparr> failures = 0, lastFailureTime = 0, state = Closed,
       failureThreshold = (case threshold of None \<Rightarrow> 5 | Some n \<Rightarrow> n),
       recoveryTimeout = (case timeout of None \<Rightarrow> 60000 | Some t \<Rightarrow> t) \<rparr>"

text \<open>
  \<^verbatim>\<open>allowRequest()\<close>, with \<open>now\<close> the value of \<^verbatim>\<open>Date.now()\<close>: the answer and the
  breaker after the call.
\<close>

definition allowRequest :: "real \<Rightarrow> CircuitBreaker \<Rightarrow> bool \<times> CircuitBreaker" where
  "allowRequest now this =
     (case state this of
        Closed \<Rightarrow> (True, this)
      | Open \<Rightarrow>
          if now - lastFailureTime this \<ge> recoveryTimeout this
          then (True, this\<lparr> state := HalfOpen \<rparr>)
          else (False, this)
      | HalfOpen \<Rightarrow> (True, this))"

definition recordSuccess :: "CircuitBreaker \<Rightarrow> CircuitBreaker" where
  "recordSuccess this = this\<lparr> failures := 0, state := Closed \<rparr>"

definition recordFailure :: "real \<Rightarrow> CircuitBreaker \<Rightarrow> CircuitBreaker" where
  "recordFailure now this =
     (let this1 = this\<lparr> failures := failures this + 1, lastFailureTime := now \<rparr>
      in if real (failures this1) \<ge> failureThreshold this1
         then this1\<lparr> state := Open \<rparr>
         else this1)"

definition getState :: "CircuitBreaker \<Rightarrow> CircuitState" where
  "getState this = state this"

text \<open>A run of \<^verbatim>\<open>recordFailure()\<close> calls, one per clock reading, oldest first.\<close>

definition recordFailures :: "real list \<Rightarrow> CircuitBreaker \<Rightarrow> CircuitBreaker" where
  "recordFailures clock this = foldl (\<lambda>cb t. recordFailure t cb) this clock"

section \<open>Cache eligibility\<close>

record CacheTtl =
  systemPrompt :: real
  userMessages :: real
  longContent :: real

record CacheOptimizationConfig =
  minTokensForCaching :: real
  aggressiveCaching :: bool
  cacheTtl :: CacheTtl

definition DEFAULT_CACHE_CONFIG :: CacheOptimizationConfig where
  "DEFAULT_CACHE_CONFIG =
     \<lparr> minTokensForCaching = 1024, aggressiveCaching = False,
       cacheTtl = \<lparr> systemPrompt = 3600, userMessages = 1800, longContent = 900 \<rparr> \<rparr>"

text \<open>
  \<^verbatim>\<open>estimateTokenCount(text)\<close>. The parameter is declared a string; the callers that
  pass null or undefined are modelled by None, where reading \<^verbatim>\<open>text.length\<close> raises
  TypeError.
\<close>

definition estimateTokenCount :: "string option \<Rightarrow> jserror + real" where
  "estimateTokenCount text' =
     (case text' of
        None \<Rightarrow> Inl TypeError
      | Some s \<Rightarrow> Inr (of_int \<lceil>real (length s) / 4\<rceil>))"

text \<open>\<^verbatim>\<open>shouldCacheContent(content, config = DEFAULT_CACHE_CONFIG)\<close>.\<close>

definition shouldCacheContent :: "string option \<Rightarrow> CacheOptimizationConfig option \<Rightarrow> jserror + bool" where
  "shouldCacheContent content config =
     (case estimateTokenCount content of
        Inl e \<Rightarrow> Inl e
      | Inr tokenCount \<Rightarrow>
          Inr (tokenCount \<ge> minTokensForCaching
                 (case config of None \<Rightarrow> DEFAULT_CACHE_CONFIG | Some c \<Rightarrow> c)))"

section \<open>Reference tables and notions used in the statements\<close>



text \<open>
  The eligibility table of the specification: the attempt cap first, then one row per
  error kind; \<open>retry_all\<close> says that the policy's retryAllErrors is set.
\<close>

definition isRetryable :: "ErrorType \<Rightarrow> nat \<Rightarrow> int \<Rightarrow> bool \<Rightarrow> bool" where
  "isRetryable errorKind attempt max_retries retry_all =
     (if max_retries \<le> int attempt then False
      else (case errorKind of
              AUTH_ERROR \<Rightarrow> False
            | CONTEXT_LENGTH_ERROR \<Rightarrow> False
            | RATE_LIMIT \<Rightarrow> True
            | SERVER_ERROR \<Rightarrow> True
            | NETWORK_ERROR \<Rightarrow> int attempt < min max_retries 3
            | UNKNOWN_ERROR \<Rightarrow> retry_all))"

text \<open>No custom retry condition is configured, or the configured one returns true.\<close>

definition custom_condition_passes :: "EnhancedRetryStrategy \<Rightarrow> jsval \<Rightarrow> nat \<Rightarrow> bool" where
  "custom_condition_passes this error attempt =
     (case so_customRetryCondition (options this) of
        None \<Rightarrow> True
      | Some cond \<Rightarrow> cond error attempt)"

text \<open>
  Half a unit in the last place, from above: the bound on the distance between an
  exact result and the double it is rounded to.
\<close>

definition rounding_error :: "real \<Rightarrow> real" where
  "rounding_error z = max (\<bar>z\<bar> / 2 ^ 53) (1 / 2 ^ 1075)"

text \<open>
  A runtime for the concrete instances below: every number prints as \<open>#\<close> and no
  string reads as a number.
\<close>

definition plain_runtime :: js_runtime where
  "plain_runtime =
     \<lparr> NumberToString = (\<lambda>x. ''#''), StringToNumber = (\<lambda>s. NaN) \<rparr>"

text \<open>The failure \<^verbatim>\<open>{ status: 429, message: "Rate limit exceeded" }\<close> of the tests.\<close>

definition rate_limit_failure :: jsval where
  "rate_limit_failure =
     JObject [(''status'', JNumber (Num 429)), (''message'', JString ''Rate limit exceeded'')]"

text \<open>
  The strategy of the tests: cost threshold 0.1 and a model priced at 3 per million
  input tokens and 15 per million output tokens, everything else defaulted.
\<close>

definition test_strategy :: EnhancedRetryStrategy where
  "test_strategy =
     new_EnhancedRetryStrategy
       (no_options\<lparr> maxCostThreshold := Some literal_0_1,
                     modelInfo := Some \<lparr> inputPrice = Some 3, outputPrice = Some 15 \<rparr> \<rparr>)"

section \<open>Properties\<close>

subsection \<open>Rounding to the nearest double\<close>

lemma find_exponent_le: "find_exponent n a \<le> n"
  by (induction n) simp_all

lemma find_exponent_lower: "0 < find_exponent n a \<Longrightarrow> 2 ^ (find_exponent n a + 52) \<le> a"
proof (induction n)
  case 0
  then show ?case by simp
next
  case (Suc n)
  show ?case
  proof (cases "2 ^ (n + 53) \<le> a")
    case True
    have "Suc n + 52 = n + 53" by simp
    with True show ?thesis by (simp add: ac_simps)
  next
    case False
    with Suc show ?thesis by simp
  qed
qed

lemma find_exponent_upper: "a < 2 ^ (n + 53) \<Longrightarrow> a < 2 ^ (find_exponent n a + 53)"
proof (induction n)
  case 0
  then show ?case by simp
next
  case (Suc n)
  show ?case
  proof (cases "2 ^ (n + 53) \<le> a")
    case True
    with Suc.prems show ?thesis by simp
  next
    case False
    then have "a < 2 ^ (n + 53)" by simp
    from Suc.IH [OF this] False show ?thesis by simp
  qed
qed

lemma round_half_even_floor: "\<lfloor>q\<rfloor> \<le> round_half_even q"
  by (simp add: round_half_even_def Let_def)

lemma round_half_even_ceiling: "round_half_even q \<le> \<lceil>q\<rceil>"
  by (auto simp: round_half_even_def Let_def ceiling_altdef)

lemma round_half_even_near_up:
  assumes "of_int \<lceil>q\<rceil> \<le> x"
  shows "\<bar>of_int (round_half_even q) - q\<bar> \<le> x - q"
proof -
  have f: "of_int \<lfloor>q\<rfloor> \<le> q" "q < of_int \<lfloor>q\<rfloor> + 1" by linarith+
  show ?thesis
  proof (cases "q = of_int \<lfloor>q\<rfloor>")
    case True
    then have "round_half_even q = \<lfloor>q\<rfloor>" by (simp add: round_half_even_def Let_def)
    moreover from True have "\<lceil>q\<rceil> = \<lfloor>q\<rfloor>" by (simp add: ceiling_altdef)
    ultimately show ?thesis using assms True by simp
  next
    case False
    then have "\<lceil>q\<rceil> = \<lfloor>q\<rfloor> + 1" by (simp add: ceiling_altdef)
    with assms have x: "of_int \<lfloor>q\<rfloor> + 1 \<le> x" by simp
    show ?thesis using x f by (auto simp: round_half_even_def Let_def)
  qed
qed

lemma round_half_even_near_down:
  assumes "x \<le> of_int \<lfloor>q\<rfloor>"
  shows "\<bar>of_int (round_half_even q) - q\<bar> \<le> q - x"
proof -
  have f: "of_int \<lfloor>q\<rfloor> \<le> q" "q < of_int \<lfloor>q\<rfloor> + 1" by linarith+
  show ?thesis using assms f by (auto simp: round_half_even_def Let_def)
qed

lemma round_half_even_half: "\<bar>of_int (round_half_even q) - q\<bar> \<le> 1 / 2"
proof -
  have f: "of_int \<lfloor>q\<rfloor> \<le> q" "q < of_int \<lfloor>q\<rfloor> + 1" by linarith+
  show ?thesis using f by (auto simp: round_half_even_def Let_def)
qed



lemma units_nonneg: "0 \<le> units x"
  by (simp add: units_def)

lemma units_mono: "0 \<le> x \<Longrightarrow> x \<le> y \<Longrightarrow> units x \<le> units y"
  by (simp add: units_def)

lemma units_minus: "units (- x) = units x"
  by (simp add: units_def)

text \<open>A double of at least \<open>2\<^sup>k\<^sup>+\<^sup>5\<^sup>2\<close> units is a whole multiple of \<open>2\<^sup>k\<close> units.\<close>

lemma double_grid:
  assumes d: "is_double d" and k: "0 < k \<longrightarrow> 2 ^ (k + 52) \<le> units d"
  shows "units d / 2 ^ k \<in> \<int>"
proof -
  from d obtain k' where k': "units d / 2 ^ k' \<in> \<int>" "units d / 2 ^ k' < 2 ^ 53"
    unfolding is_double_def by blast
  have le: "k \<le> k'"
  proof (cases "0 < k")
    case True
    with k have "(2 :: real) ^ (k + 52) \<le> units d" by simp
    also from k'(2) have "units d < 2 ^ 53 * 2 ^ k'" by (simp add: divide_less_eq)
    also have "(2 :: real) ^ 53 * 2 ^ k' = 2 ^ (k' + 53)" by (simp only: power_add mult.commute)
    finally have "k + 52 < k' + 53" by (simp only: power_strict_increasing_iff one_less_numeral_iff semiring_norm)
    then show ?thesis by simp
  qed simp
  then have "(2 :: real) ^ k' = 2 ^ (k' - k) * 2 ^ k" by (simp flip: power_add)
  then have "units d / 2 ^ k = (units d / 2 ^ k') * 2 ^ (k' - k)"
    by simp
  moreover have "(2 :: real) ^ (k' - k) \<in> \<int>" by simp
  ultimately show ?thesis using k'(1) by (simp del: times_divide_eq_left)
qed

lemma grid_up:
  assumes d: "is_double d" and z: "0 \<le> z" "z \<le> d" and k: "k = find_exponent 2045 (units z)"
  shows "of_int \<lceil>units z / 2 ^ k\<rceil> \<le> units d / 2 ^ k"
proof -
  have "0 < k \<longrightarrow> 2 ^ (k + 52) \<le> units d"
  proof
    assume "0 < k"
    then have "2 ^ (k + 52) \<le> units z"
      unfolding k by (rule find_exponent_lower)
    also from z have "units z \<le> units d" by (rule units_mono)
    finally show "2 ^ (k + 52) \<le> units d" .
  qed
  from double_grid [OF d this] obtain n :: int where n: "units d / 2 ^ k = of_int n"
    by (auto simp: Ints_def)
  from units_mono [OF z] have "units z / 2 ^ k \<le> units d / 2 ^ k" by (simp add: divide_right_mono)
  with n have "\<lceil>units z / 2 ^ k\<rceil> \<le> n" by (simp add: ceiling_le_iff)
  then have "of_int \<lceil>units z / 2 ^ k\<rceil> \<le> (of_int n :: real)" by simp
  with n show ?thesis by simp
qed

lemma grid_down:
  assumes d: "is_double d" and z: "0 \<le> d" "d \<le> z" and k: "k = find_exponent 2045 (units z)"
  shows "units d / 2 ^ k \<le> of_int \<lfloor>units z / 2 ^ k\<rfloor>"
proof (cases "0 < k \<longrightarrow> 2 ^ (k + 52) \<le> units d")
  case True
  from double_grid [OF d this] obtain n :: int where n: "units d / 2 ^ k = of_int n"
    by (auto simp: Ints_def)
  from units_mono [OF z] have "units d / 2 ^ k \<le> units z / 2 ^ k" by (simp add: divide_right_mono)
  with n have "n \<le> \<lfloor>units z / 2 ^ k\<rfloor>" by (simp add: le_floor_iff)
  then have "(of_int n :: real) \<le> of_int \<lfloor>units z / 2 ^ k\<rfloor>" by simp
  with n show ?thesis by simp
next
  case False
  then have pos: "0 < k" and lt: "units d < 2 ^ (k + 52)" by simp_all
  from pos have "2 ^ (k + 52) \<le> units z"
    unfolding k by (rule find_exponent_lower)
  then have "2 ^ 52 * 2 ^ k \<le> units z" by (simp only: power_add mult.commute)
  then have "(2 :: real) ^ 52 \<le> units z / 2 ^ k" by (simp only: le_divide_eq zero_less_power zero_less_numeral if_True)
  then have "of_int (2 ^ 52) \<le> units z / 2 ^ k" by (simp only: of_int_power of_int_numeral)
  then have "(2 :: int) ^ 52 \<le> \<lfloor>units z / 2 ^ k\<rfloor>" by (simp only: le_floor_iff)
  then have "(of_int (2 ^ 52) :: real) \<le> of_int \<lfloor>units z / 2 ^ k\<rfloor>"
    by (simp only: of_int_le_iff)
  then have f: "(2 :: real) ^ 52 \<le> of_int \<lfloor>units z / 2 ^ k\<rfloor>"
    by (simp only: of_int_power of_int_numeral)
  from lt have "units d < 2 ^ 52 * 2 ^ k" by (simp only: power_add mult.commute)
  then have "units d / 2 ^ k < 2 ^ 52" by (simp only: divide_less_eq zero_less_power zero_less_numeral if_True)
  with f show ?thesis by linarith
qed


lemma rescale: "0 < p \<Longrightarrow> 0 < r \<Longrightarrow> (x * p / r) * (r / p) = (x :: real)"
  by simp

lemma units_rescale: "0 \<le> x \<Longrightarrow> units x / 2 ^ k * (2 ^ k / 2 ^ 1074) = x"
  unfolding units_def using rescale [of "2 ^ 1074" "2 ^ k" "\<bar>x\<bar>"] by simp

lemma nearest_double_0: "nearest_double 0 = 0"
  by (simp add: nearest_double_def)

lemma nearest_double_nonneg_eq:
  assumes "0 \<le> z" "k = find_exponent 2045 (units z)"
  shows "nearest_double z = of_int (round_half_even (units z / 2 ^ k)) * (2 ^ k / 2 ^ 1074)"
proof (cases "z = 0")
  case True
  have "round_half_even 0 = 0" by (simp add: round_half_even_def)
  with True show ?thesis by (simp add: nearest_double_0 units_def)
next
  case False
  with assms have "sgn z = 1" by simp
  with assms(2) show ?thesis by (simp add: nearest_double_def Let_def)
qed

lemma nearest_double_minus: "nearest_double (- z) = - nearest_double z"
  by (simp add: nearest_double_def units_minus Let_def sgn_minus)

lemma sandwich_up_nonneg:
  assumes d: "is_double d" and z: "0 \<le> z" "z \<le> d"
  shows "nearest_double z \<le> d"
proof -
  define k where "k = find_exponent 2045 (units z)"
  define c :: real where "c = 2 ^ k / 2 ^ 1074"
  have c: "0 < c" by (simp add: c_def)
  from z have d0: "0 \<le> d" by simp
  have "of_int (round_half_even (units z / 2 ^ k)) \<le> (of_int \<lceil>units z / 2 ^ k\<rceil> :: real)"
    using round_half_even_ceiling by (simp only: of_int_le_iff)
  also have "\<dots> \<le> units d / 2 ^ k" using grid_up [OF d z k_def] .
  finally have "of_int (round_half_even (units z / 2 ^ k)) * c \<le> units d / 2 ^ k * c"
    using c by (simp only: mult_le_cancel_right_pos)
  then show ?thesis
    using nearest_double_nonneg_eq [OF z(1) k_def] units_rescale [OF d0, of k]
    by (simp only: c_def)
qed

lemma sandwich_down_nonneg:
  assumes d: "is_double d" and z: "0 \<le> d" "d \<le> z"
  shows "d \<le> nearest_double z"
proof -
  define k where "k = find_exponent 2045 (units z)"
  define c :: real where "c = 2 ^ k / 2 ^ 1074"
  have c: "0 < c" by (simp add: c_def)
  from z have z0: "0 \<le> z" by simp
  have "units d / 2 ^ k \<le> of_int \<lfloor>units z / 2 ^ k\<rfloor>" using grid_down [OF d z k_def] .
  also have "(of_int \<lfloor>units z / 2 ^ k\<rfloor> :: real) \<le> of_int (round_half_even (units z / 2 ^ k))"
    using round_half_even_floor by (simp only: of_int_le_iff)
  finally have "units d / 2 ^ k * c \<le> of_int (round_half_even (units z / 2 ^ k)) * c"
    using c by (simp only: mult_le_cancel_right_pos)
  then show ?thesis
    using nearest_double_nonneg_eq [OF z0 k_def] units_rescale [OF z(1), of k]
    by (simp only: c_def)
qed

lemma nearest_nonneg:
  assumes d: "is_double d" and z: "0 \<le> z" "0 \<le> d"
  shows "\<bar>nearest_double z - z\<bar> \<le> \<bar>d - z\<bar>"
proof -
  define k where "k = find_exponent 2045 (units z)"
  define c :: real where "c = 2 ^ k / 2 ^ 1074"
  define q where "q = units z / 2 ^ k"
  define x where "x = units d / 2 ^ k"
  define m :: real where "m = of_int (round_half_even q)"
  have c: "0 < c" by (simp add: c_def)
  have n: "nearest_double z = m * c"
    using nearest_double_nonneg_eq [OF z(1) k_def] by (simp only: c_def m_def q_def)
  have zq: "z = q * c" using units_rescale [OF z(1), of k] by (simp only: c_def q_def)
  have dx: "d = x * c" using units_rescale [OF z(2), of k] by (simp only: c_def x_def)
  have "\<bar>m - q\<bar> \<le> \<bar>x - q\<bar>"
  proof (cases "z \<le> d")
    case True
    from grid_up [OF d z(1) True k_def] have "of_int \<lceil>q\<rceil> \<le> x" by (simp only: q_def x_def)
    from round_half_even_near_up [OF this] show ?thesis by (simp add: m_def)
  next
    case False
    then have "d \<le> z" by simp
    from grid_down [OF d z(2) this k_def] have "x \<le> of_int \<lfloor>q\<rfloor>" by (simp only: q_def x_def)
    from round_half_even_near_down [OF this] show ?thesis by (simp add: m_def)
  qed
  then have "\<bar>m - q\<bar> * c \<le> \<bar>x - q\<bar> * c" using c by (simp only: mult_le_cancel_right_pos)
  moreover have "\<bar>m - q\<bar> * c = \<bar>m * c - q * c\<bar>" using c by (simp add: abs_mult flip: left_diff_distrib)
  moreover have "\<bar>x - q\<bar> * c = \<bar>x * c - q * c\<bar>" using c by (simp add: abs_mult flip: left_diff_distrib)
  ultimately show ?thesis by (simp only: n zq [symmetric] dx [symmetric])
qed

lemma nearest_double_nonneg: "0 \<le> z \<Longrightarrow> 0 \<le> nearest_double z"
proof -
  assume z: "0 \<le> z"
  have "is_double 0" unfolding is_double_def units_def by (rule bexI [where x = 0]) simp_all
  from sandwich_down_nonneg [OF this _ z] show ?thesis by simp
qed

lemma is_double_minus: "is_double (- x) = is_double x"
  by (simp add: is_double_def units_minus)

lemma is_double_0: "is_double 0"
  unfolding is_double_def units_def by (rule bexI [where x = 0]) simp_all

text \<open>A double above the exact result is no less than the rounded one, and likewise below.\<close>

lemma sandwich_le:
  assumes d: "is_double d" and z: "z \<le> d"
  shows "nearest_double z \<le> d"
proof (cases "0 \<le> z")
  case True
  from sandwich_up_nonneg [OF d True z] show ?thesis .
next
  case False
  then have nz: "0 \<le> - z" by simp
  show ?thesis
  proof (cases "0 \<le> d")
    case True
    from nearest_double_nonneg [OF nz] have "nearest_double z \<le> 0"
      by (simp add: nearest_double_minus)
    with True show ?thesis by simp
  next
    case False
    then have "0 \<le> - d" by simp
    moreover from z have "- d \<le> - z" by simp
    moreover from d have "is_double (- d)" by (simp add: is_double_minus)
    ultimately have "- d \<le> nearest_double (- z)" by (simp add: sandwich_down_nonneg)
    then show ?thesis by (simp add: nearest_double_minus)
  qed
qed

lemma sandwich_ge:
  assumes d: "is_double d" and z: "d \<le> z"
  shows "d \<le> nearest_double z"
proof -
  from d have "is_double (- d)" by (simp add: is_double_minus)
  moreover from z have "- z \<le> - d" by simp
  ultimately have "nearest_double (- z) \<le> - d" by (rule sandwich_le)
  then show ?thesis by (simp add: nearest_double_minus)
qed

lemma nearest_double_exact: "is_double z \<Longrightarrow> nearest_double z = z"
  using sandwich_le [of z z] sandwich_ge [of z z] by simp

lemma nearest_nonneg_any:
  assumes d: "is_double d" and z: "0 \<le> z"
  shows "\<bar>nearest_double z - z\<bar> \<le> \<bar>d - z\<bar>"
proof (cases "0 \<le> d")
  case True
  from nearest_nonneg [OF d z True] show ?thesis .
next
  case False
  from nearest_nonneg [OF is_double_0 z] have "\<bar>nearest_double z - z\<bar> \<le> \<bar>0 - z\<bar>" by simp
  with False z show ?thesis by simp
qed

text \<open>No double is nearer to the exact result than the rounded one.\<close>

lemma nearest:
  assumes d: "is_double d"
  shows "\<bar>nearest_double z - z\<bar> \<le> \<bar>d - z\<bar>"
proof (cases "0 \<le> z")
  case True
  from nearest_nonneg_any [OF d True] show ?thesis .
next
  case False
  then have nz: "0 \<le> - z" by simp
  from d have "is_double (- d)" by (simp add: is_double_minus)
  from nearest_nonneg_any [OF this nz] have "\<bar>- nearest_double z + z\<bar> \<le> \<bar>- d + z\<bar>"
    by (simp add: nearest_double_minus)
  then show ?thesis by (simp add: abs_minus_commute)
qed

text \<open>Rounding is monotone.\<close>

lemma nearest_double_mono:
  assumes le: "z \<le> z'" and a: "is_double (nearest_double z)" and b: "is_double (nearest_double z')"
  shows "nearest_double z \<le> nearest_double z'"
proof (rule ccontr)
  assume n: "\<not> nearest_double z \<le> nearest_double z'"
  then have "z \<noteq> z'" by auto
  with le have less: "z < z'" by simp
  from n have lt: "nearest_double z' < nearest_double z" by simp
  have 1: "nearest_double z' < z"
  proof (rule ccontr)
    assume "\<not> nearest_double z' < z"
    then have "z \<le> nearest_double z'" by simp
    from sandwich_le [OF b this] lt show False by simp
  qed
  have 2: "z' < nearest_double z"
  proof (rule ccontr)
    assume "\<not> z' < nearest_double z"
    then have "nearest_double z \<le> z'" by simp
    from sandwich_ge [OF a this] lt show False by simp
  qed
  from nearest [OF b, of z] 1 2 le have 3: "nearest_double z - z \<le> z - nearest_double z'" by simp
  from nearest [OF a, of z'] 1 2 le have 4: "z' - nearest_double z' \<le> nearest_double z - z'" by simp
  from 3 4 less show False by simp
qed


lemma pow2_less_imp: "(2 :: real) ^ (i + 52) \<le> a \<Longrightarrow> a < 2 ^ (j + 53) \<Longrightarrow> i \<le> j"
proof -
  assume "(2 :: real) ^ (i + 52) \<le> a" "a < 2 ^ (j + 53)"
  then have "(2 :: real) ^ (i + 52) < 2 ^ (j + 53)" by (rule le_less_trans)
  then have "i + 52 < j + 53"
    by (simp only: power_strict_increasing_iff one_less_numeral_iff semiring_norm)
  then show ?thesis by simp
qed

lemma find_exponent_eq:
  assumes k: "k \<le> n" "0 < k \<longrightarrow> 2 ^ (k + 52) \<le> a" "a < 2 ^ (k + 53)"
  shows "find_exponent n a = k"
proof -
  define r where "r = find_exponent n a"
  from k(1) have "(2 :: real) ^ (k + 53) \<le> 2 ^ (n + 53)"
    by (simp only: power_increasing_iff one_less_numeral_iff semiring_norm)
  with k(3) have "a < 2 ^ (n + 53)" by (rule less_le_trans)
  then have u: "a < 2 ^ (r + 53)" unfolding r_def by (rule find_exponent_upper)
  have l: "0 < r \<longrightarrow> 2 ^ (r + 52) \<le> a" unfolding r_def using find_exponent_lower by blast
  have "r \<le> k"
  proof (cases "0 < r")
    case True
    with l have "2 ^ (r + 52) \<le> a" by simp
    from pow2_less_imp [OF this k(3)] show ?thesis .
  qed simp
  moreover have "k \<le> r"
  proof (cases "0 < k")
    case True
    with k(2) have "2 ^ (k + 52) \<le> a" by simp
    from pow2_less_imp [OF this u] show ?thesis .
  qed simp
  ultimately show ?thesis by (simp add: r_def)
qed

lemma units_below_overflow:
  assumes "\<bar>z\<bar> < 2 ^ 1024 - 2 ^ 970"
  shows "units z < (2 ^ 53 - 1 / 2) * 2 ^ 2045"
proof -
  have "(2 ^ 1024 - 2 ^ 970) * 2 ^ 1074 = (2 ^ 53 - 1 / 2) * (2 :: real) ^ 2045" by simp
  moreover from assms have "\<bar>z\<bar> * 2 ^ 1074 < (2 ^ 1024 - 2 ^ 970) * 2 ^ 1074"
    by (simp only: mult_less_cancel_right_pos zero_less_power zero_less_numeral)
  ultimately show ?thesis by (simp only: units_def)
qed

lemma units_scaled: "0 \<le> m \<Longrightarrow> units (m * (2 ^ k / 2 ^ 1074)) = m * 2 ^ k"
  by (simp add: units_def abs_mult)

lemma nearest_double_is_double_nonneg:
  assumes z: "0 \<le> z" and u: "units z < (2 ^ 53 - 1 / 2) * 2 ^ 2045"
  shows "is_double (nearest_double z)"
proof -
  define k where "k = find_exponent 2045 (units z)"
  define q where "q = units z / 2 ^ k"
  define m where "m = round_half_even q"
  have k: "k \<le> 2045" unfolding k_def by (rule find_exponent_le)
  have "(2 ^ 53 - 1 / 2) * 2 ^ 2045 \<le> (2 :: real) ^ (2045 + 53)" by simp
  with u have "units z < 2 ^ (2045 + 53)" by (rule less_le_trans)
  then have "units z < 2 ^ (k + 53)" unfolding k_def by (rule find_exponent_upper)
  then have "units z < 2 ^ 53 * 2 ^ k" by (simp only: power_add mult.commute)
  then have q53: "q < 2 ^ 53"
    unfolding q_def by (simp only: divide_less_eq zero_less_power zero_less_numeral if_True)
  have q0: "0 \<le> q" unfolding q_def by (simp add: units_nonneg)
  then have "0 \<le> \<lfloor>q\<rfloor>" by simp
  with round_half_even_floor [of q] have m0: "0 \<le> m" unfolding m_def by linarith
  from q53 have "q \<le> of_int (2 ^ 53)" by simp
  then have "\<lceil>q\<rceil> \<le> 2 ^ 53" by (simp only: ceiling_le_iff)
  with round_half_even_ceiling [of q] have m53: "m \<le> 2 ^ 53" unfolding m_def by linarith
  have n: "nearest_double z = of_int m * (2 ^ k / 2 ^ 1074)"
    using nearest_double_nonneg_eq [OF z k_def] by (simp only: m_def q_def)
  from m0 have "(0 :: real) \<le> of_int m" by simp
  from units_scaled [OF this] have un: "units (nearest_double z) = of_int m * 2 ^ k"
    by (simp only: n)
  show ?thesis
  proof (cases "m < 2 ^ 53")
    case True
    then have "(of_int m :: real) < 2 ^ 53" by (metis of_int_less_iff of_int_numeral of_int_power)
    moreover have "units (nearest_double z) / 2 ^ k = of_int m" by (simp add: un)
    ultimately have "units (nearest_double z) / 2 ^ k \<in> \<int> \<and> units (nearest_double z) / 2 ^ k < 2 ^ 53"
      by simp
    with k show ?thesis unfolding is_double_def by (intro bexI [where x = k]) simp_all
  next
    case False
    with m53 have m: "m = 2 ^ 53" by simp
    have "k < 2045"
    proof (rule ccontr)
      assume "\<not> k < 2045"
      with k have k2045: "k = 2045" by simp
      from round_half_even_half [of q] have "of_int m - 1 / 2 \<le> q" unfolding m_def by linarith
      then have "2 ^ 53 - 1 / 2 \<le> q" by (simp add: m)
      then have "(2 ^ 53 - 1 / 2) * 2 ^ 2045 \<le> units z"
        unfolding q_def k2045 by (simp only: le_divide_eq zero_less_power zero_less_numeral if_True)
      with u show False by simp
    qed
    then have sk: "Suc k \<le> 2045" by simp
    have "units (nearest_double z) / 2 ^ Suc k = 2 ^ 52" by (simp add: un m)
    then have "units (nearest_double z) / 2 ^ Suc k \<in> \<int> \<and> units (nearest_double z) / 2 ^ Suc k < 2 ^ 53"
      by simp
    with sk show ?thesis unfolding is_double_def by (intro bexI [where x = "Suc k"]) simp_all
  qed
qed

text \<open>Below the overflow threshold the rounded result is a double.\<close>

lemma nearest_double_is_double:
  assumes "\<bar>z\<bar> < 2 ^ 1024 - 2 ^ 970"
  shows "is_double (nearest_double z)"
proof (cases "0 \<le> z")
  case True
  from nearest_double_is_double_nonneg [OF True units_below_overflow [OF assms]] show ?thesis .
next
  case False
  then have "0 \<le> - z" by simp
  moreover from assms have "\<bar>- z\<bar> < 2 ^ 1024 - 2 ^ 970" by simp
  then have "units (- z) < (2 ^ 53 - 1 / 2) * 2 ^ 2045" by (rule units_below_overflow)
  ultimately have "is_double (nearest_double (- z))" by (rule nearest_double_is_double_nonneg)
  then show ?thesis by (simp add: nearest_double_minus is_double_minus)
qed

text \<open>The rounded result is within half a unit in the last place of the exact one.\<close>

lemma nearest_double_error_nonneg:
  assumes z: "0 \<le> z"
  shows "\<bar>nearest_double z - z\<bar> \<le> rounding_error z"
proof -
  define k where "k = find_exponent 2045 (units z)"
  define c :: real where "c = 2 ^ k / 2 ^ 1074"
  define q where "q = units z / 2 ^ k"
  define m :: real where "m = of_int (round_half_even q)"
  have c: "0 < c" by (simp add: c_def)
  have n: "nearest_double z = m * c"
    using nearest_double_nonneg_eq [OF z k_def] by (simp only: c_def m_def q_def)
  have zq: "z = q * c" using units_rescale [OF z, of k] by (simp only: c_def q_def)
  from round_half_even_half [of q] have "\<bar>m - q\<bar> \<le> 1 / 2" by (simp only: m_def)
  then have "\<bar>m - q\<bar> * c \<le> 1 / 2 * c" using c by (simp only: mult_le_cancel_right_pos)
  moreover have "\<bar>m - q\<bar> * c = \<bar>m * c - q * c\<bar>" using c by (simp add: abs_mult flip: left_diff_distrib)
  ultimately have e: "\<bar>nearest_double z - z\<bar> \<le> c / 2" by (simp add: n zq [symmetric])
  have "c / 2 \<le> rounding_error z"
  proof (cases "0 < k")
    case False
    then have "c / 2 = 1 / 2 ^ 1075" by (simp add: c_def)
    then show ?thesis by (simp only: rounding_error_def max.cobounded2)
  next
    case True
    then have "2 ^ (k + 52) \<le> units z" unfolding k_def by (rule find_exponent_lower)
    then have "2 ^ 52 * 2 ^ k \<le> units z" by (simp only: power_add mult.commute)
    then have "(2 :: real) ^ 52 \<le> q"
      unfolding q_def by (simp only: le_divide_eq zero_less_power zero_less_numeral if_True)
    then have "2 ^ 52 * c \<le> q * c" using c by (simp only: mult_le_cancel_right_pos)
    then have "2 ^ 52 * c \<le> \<bar>z\<bar>" using z by (simp add: zq [symmetric])
    then have "2 ^ 52 * c / 2 ^ 53 \<le> \<bar>z\<bar> / 2 ^ 53" by (simp only: divide_le_cancel) simp
    moreover have "2 ^ 52 * c / 2 ^ 53 = c / 2" by simp
    ultimately have "c / 2 \<le> \<bar>z\<bar> / 2 ^ 53" by simp
    then show ?thesis by (simp only: rounding_error_def max.coboundedI1)
  qed
  with e show ?thesis by linarith
qed

lemma nearest_double_error: "\<bar>nearest_double z - z\<bar> \<le> rounding_error z"
proof (cases "0 \<le> z")
  case True
  then show ?thesis by (rule nearest_double_error_nonneg)
next
  case False
  then have "0 \<le> - z" by simp
  from nearest_double_error_nonneg [OF this]
  have "\<bar>- nearest_double z + z\<bar> \<le> rounding_error z"
    by (simp add: nearest_double_minus rounding_error_def)
  then show ?thesis by (simp add: abs_minus_commute)
qed

text \<open>
  Evaluation in the normal range: a positive \<open>z\<close> with \<open>2\<^sup>5\<^sup>2 \<le> z \<times> 2\<^sup>j < 2\<^sup>5\<^sup>3\<close> is rounded
  to a whole multiple of \<open>2\<^sup>-\<^sup>j\<close>.
\<close>

lemma nearest_double_normal:
  assumes j: "j \<le> 1073" and z: "2 ^ 52 \<le> z * 2 ^ j" "z * 2 ^ j < 2 ^ 53"
  shows "nearest_double z = of_int (round_half_even (z * 2 ^ j)) / 2 ^ j"
proof -
  define k where "k = 1074 - j"
  from j have k: "0 < k" "k \<le> 2045" "j + k = 1074" by (simp_all add: k_def)
  have p: "(2 :: real) ^ 1074 = 2 ^ j * 2 ^ k" by (simp only: k(3) flip: power_add)
  have "(0 :: real) < 2 ^ 52" by simp
  also note z(1)
  finally have "0 < z" by (simp add: zero_less_mult_iff)
  then have u: "units z = (z * 2 ^ j) * 2 ^ k" by (simp only: units_def p abs_of_pos mult.assoc)
  have "2 ^ 52 * 2 ^ k \<le> (z * 2 ^ j) * 2 ^ k"
    using z(1) by (simp only: mult_le_cancel_right_pos zero_less_power zero_less_numeral)
  then have l: "2 ^ (k + 52) \<le> units z" by (simp only: u power_add mult.commute)
  have "(z * 2 ^ j) * 2 ^ k < 2 ^ 53 * 2 ^ k"
    using z(2) by (simp only: mult_less_cancel_right_pos zero_less_power zero_less_numeral)
  then have h: "units z < 2 ^ (k + 53)" by (simp only: u power_add mult.commute)
  from l have "0 < k \<longrightarrow> 2 ^ (k + 52) \<le> units z" by simp
  from find_exponent_eq [OF k(2) this h] have e: "k = find_exponent 2045 (units z)" by simp
  have q: "units z / 2 ^ k = z * 2 ^ j" by (simp add: u)
  have c: "(2 :: real) ^ k / 2 ^ 1074 = 1 / 2 ^ j" by (simp only: p) simp
  from \<open>0 < z\<close> have "0 \<le> z" by simp
  from nearest_double_nonneg_eq [OF this e] show ?thesis by (simp only: q c) simp
qed

lemma round_result_normal:
  assumes j: "j \<le> 1073" and z: "2 ^ 52 \<le> z * 2 ^ j" "z * 2 ^ j < 2 ^ 53"
  shows "round_result z = Num (of_int (round_half_even (z * 2 ^ j)) / 2 ^ j)"
proof -
  have "(0 :: real) < 2 ^ 52" by simp
  also note z(1)
  finally have "0 < z" by (simp add: zero_less_mult_iff)
  have "1 \<le> (2 :: real) ^ j" by simp
  with \<open>0 < z\<close> have "z * 1 \<le> z * 2 ^ j" by (simp only: mult_le_cancel_left_pos)
  with z(2) have "z < 2 ^ 53" by simp
  moreover have "(2 :: real) ^ 53 < 2 ^ 1024 - 2 ^ 970" by simp
  ultimately have "\<bar>z\<bar> < 2 ^ 1024 - 2 ^ 970" using \<open>0 < z\<close> by simp
  then show ?thesis by (simp add: round_result_def nearest_double_normal [OF assms])
qed

subsection \<open>Double arithmetic\<close>

lemma is_double_nat: "n < 2 ^ 53 \<Longrightarrow> is_double (real n)"
  unfolding is_double_def units_def
  by (rule bexI [where x = 1074]) simp_all

lemma is_double_1: "is_double 1"
  using is_double_nat [of 1] by simp

lemma is_double_numeral: "(numeral k :: nat) < 2 ^ 53 \<Longrightarrow> is_double (numeral k)"
  using is_double_nat [of "numeral k"] by simp

text \<open>An exact result that is a double is stored as it is.\<close>

lemma round_result_exact: "is_double z \<Longrightarrow> \<bar>z\<bar> < 2 ^ 1024 - 2 ^ 970 \<Longrightarrow> round_result z = Num z"
  by (simp add: round_result_def nearest_double_exact)

lemma round_result_nat: "n < 2 ^ 53 \<Longrightarrow> round_result (real n) = Num (real n)"
proof -
  assume n: "n < 2 ^ 53"
  then have "real n < 2 ^ 53" by (metis of_nat_less_iff of_nat_numeral of_nat_power)
  moreover have "(2 :: real) ^ 53 \<le> 2 ^ 1024 - 2 ^ 970" by simp
  ultimately have "\<bar>real n\<bar> < 2 ^ 1024 - 2 ^ 970" by simp
  with is_double_nat [OF n] show ?thesis by (rule round_result_exact)
qed

lemma round_result_0: "round_result 0 = Num 0"
  using round_result_nat [of 0] by simp

lemma round_result_1: "round_result 1 = Num 1"
  using round_result_nat [of 1] by simp

lemma round_result_numeral:
  "(numeral k :: nat) < 2 ^ 53 \<Longrightarrow> round_result (numeral k) = Num (numeral k)"
  using round_result_nat [of "numeral k"] by simp

lemma round_result_neg_1: "round_result (- 1) = Num (- 1)"
proof -
  have "is_double (- 1)" by (simp add: is_double_minus is_double_1)
  then show ?thesis by (simp add: round_result_exact)
qed

lemma rounding_error_nonneg: "0 \<le> rounding_error z"
  by (simp add: rounding_error_def max_def)

lemma rounding_error_le: "rounding_error z \<le> \<bar>z\<bar> + 1"
proof -
  have "\<bar>z\<bar> / 2 ^ 53 \<le> \<bar>z\<bar>" by (simp add: divide_le_eq)
  moreover have "(1 :: real) / 2 ^ 1075 \<le> 1" by simp
  ultimately show ?thesis unfolding rounding_error_def by (simp add: max_def)
qed

text \<open>Below the overflow threshold a result is finite and within the rounding error.\<close>

lemma round_result_finite:
  assumes "\<bar>z\<bar> < 2 ^ 1024 - 2 ^ 970"
  shows "\<exists>d. round_result z = Num d \<and> \<bar>d - z\<bar> \<le> rounding_error z"
  using assms nearest_double_error [of z] by (simp add: round_result_def)

lemma round_result_small:
  assumes "\<bar>z\<bar> \<le> 2 ^ 1020"
  shows "\<exists>d. round_result z = Num d \<and> \<bar>d\<bar> \<le> 2 * \<bar>z\<bar> + 1"
proof -
  have "(2 :: real) ^ 1020 < 2 ^ 1024 - 2 ^ 970" by simp
  with assms have "\<bar>z\<bar> < 2 ^ 1024 - 2 ^ 970" by linarith
  then obtain d where d: "round_result z = Num d" "\<bar>d - z\<bar> \<le> rounding_error z"
    using round_result_finite by blast
  from d(2) rounding_error_le [of z] have "\<bar>d\<bar> \<le> 2 * \<bar>z\<bar> + 1" by linarith
  with d(1) show ?thesis by blast
qed

text \<open>A result that is not negative is a finite number from 0 or the positive infinity.\<close>

lemma round_result_nonneg_cases:
  assumes "0 \<le> z"
  shows "round_result z = PosInf \<or> (\<exists>d. round_result z = Num d)"
proof (cases "2 ^ 1024 - 2 ^ 970 \<le> \<bar>z\<bar>")
  case True
  have "(0 :: real) < 2 ^ 1024 - 2 ^ 970" by simp
  with True assms have "0 < z" by linarith
  with True show ?thesis by (simp add: round_result_def)
next
  case False
  then show ?thesis by (simp add: round_result_def)
qed

text \<open>The factor \<^verbatim>\<open>Math.random() * 2 - 1\<close> is finite.\<close>

lemma random_factor_finite:
  "\<exists>c. js_sub (js_mul (Math_random seed) (Num 2)) (Num 1) = Num c"
proof -
  have f: "0 \<le> frac seed" "frac seed < 1" by (simp_all add: frac_lt_1)
  then have "\<bar>frac seed * 2\<bar> \<le> 2 ^ 1020" by simp
  then obtain c0 where c0: "round_result (frac seed * 2) = Num c0" "\<bar>c0\<bar> \<le> 2 * \<bar>frac seed * 2\<bar> + 1"
    using round_result_small by blast
  from c0(2) f have "\<bar>c0 + - 1\<bar> \<le> 2 ^ 1020" by simp
  then obtain c where "round_result (c0 + - 1) = Num c"
    using round_result_small by blast
  with c0(1) show ?thesis by (simp add: js_sub_def Math_random_def)
qed

text \<open>With a jitter factor of 0 the jitter is 0 and the delay is kept.\<close>

lemma add_jitter_zero_factor:
  assumes "round_result x = Num x" "0 \<le> x"
  shows "add_jitter seed 0 (Num x) = Num x"
proof -
  obtain c where c: "js_sub (js_mul (Math_random seed) (Num 2)) (Num 1) = Num c"
    using random_factor_finite by blast
  show ?thesis
    using assms by (auto simp: add_jitter_def Let_def c round_result_0 Math_max_def)
qed

text \<open>The literals are the doubles nearest to 0.1, 0.2, 0.3 and 1.2.\<close>

lemma literals_rounded:
  "round_result (1 / 10) = Num literal_0_1"
  "round_result (2 / 10) = Num literal_0_2"
  "round_result (3 / 10) = Num literal_0_3"
  "round_result (12 / 10) = Num literal_1_2"
  using round_result_normal [of 56 "1 / 10"] round_result_normal [of 55 "2 / 10"]
    round_result_normal [of 54 "3 / 10"] round_result_normal [of 52 "12 / 10"]
  by (simp_all add: round_half_even_def literal_0_1_def literal_0_2_def literal_0_3_def
      literal_1_2_def)

text \<open>The sum of the doubles of 0.1 and 0.2 is a tie and rounds up, above the double of 0.3.\<close>

lemma sum_0_1_0_2:
  "round_result (literal_0_1 + literal_0_2) = Num (literal_0_3 + 1 / 2 ^ 54)"
  using round_result_normal [of 54 "literal_0_1 + literal_0_2"]
  by (simp add: round_half_even_def literal_0_1_def literal_0_2_def literal_0_3_def)

subsection \<open>The delay\<close>

lemma rr_mono:
  "z \<le> z' \<Longrightarrow> round_result z = Num d \<Longrightarrow> round_result z' = Num d' \<Longrightarrow> d \<le> d'"
proof -
  assume le: "z \<le> z'" and d: "round_result z = Num d" "round_result z' = Num d'"
  from d(1) have z: "\<bar>z\<bar> < 2 ^ 1024 - 2 ^ 970" "d = nearest_double z"
    by (auto simp: round_result_def split: if_splits)
  from d(2) have z': "\<bar>z'\<bar> < 2 ^ 1024 - 2 ^ 970" "d' = nearest_double z'"
    by (auto simp: round_result_def split: if_splits)
  from nearest_double_mono [OF le nearest_double_is_double [OF z(1)] nearest_double_is_double [OF z'(1)]]
  show ?thesis by (simp only: z(2) z'(2))
qed

lemma rr_neg: "round_result z = Num d \<Longrightarrow> round_result (- z) = Num (- d)"
  by (auto simp: round_result_def nearest_double_minus split: if_splits)

lemma is_double_bound:
  assumes dd: "is_double d"
  shows "\<bar>d\<bar> < 2 ^ 1024 - 2 ^ 970"
proof -
  from dd obtain k where k: "k \<le> 2045" "units d / 2 ^ k \<in> \<int>" "units d / 2 ^ k < 2 ^ 53"
    unfolding is_double_def by auto
  from k(2) obtain n :: int where n: "units d / 2 ^ k = of_int n" by (auto simp: Ints_def)
  with k(3) have "(of_int n :: real) < of_int (2 ^ 53)" by simp
  then have "n < 2 ^ 53" by (simp only: of_int_less_iff)
  then have "n \<le> 2 ^ 53 - 1" by simp
  then have "(of_int n :: real) \<le> of_int (2 ^ 53 - 1)" by (simp only: of_int_le_iff)
  then have "units d / 2 ^ k \<le> 2 ^ 53 - 1" by (simp add: n)
  then have "units d \<le> (2 ^ 53 - 1) * 2 ^ k"
    by (simp only: divide_le_eq zero_less_power zero_less_numeral if_True)
  also from k(1) have "(2 :: real) ^ k \<le> 2 ^ 2045"
    by (simp only: power_increasing_iff one_less_numeral_iff semiring_norm)
  then have "(2 ^ 53 - 1) * (2 :: real) ^ k \<le> (2 ^ 53 - 1) * 2 ^ 2045"
    by (rule mult_left_mono) simp
  also have "(2 ^ 53 - 1) * (2 :: real) ^ 2045 < (2 ^ 1024 - 2 ^ 970) * 2 ^ 1074" by simp
  finally have "\<bar>d\<bar> * 2 ^ 1074 < (2 ^ 1024 - 2 ^ 970) * 2 ^ 1074" by (simp only: units_def)
  then show ?thesis
    by (simp only: mult_less_cancel_right_pos zero_less_power zero_less_numeral)
qed

lemma rr_idem: "round_result z = Num d \<Longrightarrow> round_result d = Num d"
proof -
  assume d: "round_result z = Num d"
  then have z: "\<bar>z\<bar> < 2 ^ 1024 - 2 ^ 970" "d = nearest_double z"
    by (auto simp: round_result_def split: if_splits)
  from nearest_double_is_double [OF z(1)] have dd: "is_double d" by (simp only: z(2))
  from dd is_double_bound [OF dd] show ?thesis by (rule round_result_exact)
qed

lemma rr_nonneg:
  assumes "0 \<le> z"
  shows "round_result z = PosInf \<or> (\<exists>d. round_result z = Num d \<and> 0 \<le> d)"
proof -
  from round_result_nonneg_cases [OF assms]
  show ?thesis
  proof
    assume "round_result z = PosInf"
    then show ?thesis by simp
  next
    assume "\<exists>d. round_result z = Num d"
    then obtain d where d: "round_result z = Num d" by blast
    from rr_mono [OF assms round_result_0 d] have "0 \<le> d" .
    with d show ?thesis by blast
  qed
qed

lemma js_mul_nonneg:
  assumes v: "v = PosInf \<or> (\<exists>p. v = Num p \<and> 0 \<le> p)"
    and m: "0 < m"
  shows "js_mul v (Num m) = PosInf \<or> (\<exists>p. js_mul v (Num m) = Num p \<and> 0 \<le> p)"
  using v
proof
  assume "v = PosInf"
  with m show ?thesis by simp
next
  assume "\<exists>p. v = Num p \<and> 0 \<le> p"
  then obtain p where p: "v = Num p" "0 \<le> p" by blast
  with m have "0 \<le> p * m" by simp
  from rr_nonneg [OF this] p(1) show ?thesis by simp
qed

text \<open>The capped backoff is a number between 0 and the cap.\<close>

lemma backoff_delay_range:
  assumes b: "0 \<le> b" "0 < b \<or> a < 1024"
    and M: "0 \<le> M"
    and m: "0 < m"
  shows "\<exists>x. Math_min (Num M) (js_mul (js_mul (Num b) (Math_pow2 a)) (Num m)) = Num x
             \<and> 0 \<le> x \<and> x \<le> M"
proof -
  have p1: "js_mul (Num b) (Math_pow2 a) = PosInf
      \<or> (\<exists>p. js_mul (Num b) (Math_pow2 a) = Num p \<and> 0 \<le> p)"
  proof (cases "a < 1024")
    case True
    from b(1) have "0 \<le> b * 2 ^ a" by simp
    from rr_nonneg [OF this] True show ?thesis by (simp add: Math_pow2_def)
  next
    case False
    with b(2) have "0 < b" by simp
    with False show ?thesis by (simp add: Math_pow2_def)
  qed
  from js_mul_nonneg [OF p1 m]
  show ?thesis
  proof
    assume "js_mul (js_mul (Num b) (Math_pow2 a)) (Num m) = PosInf"
    with M show ?thesis by (simp add: Math_min_def)
  next
    assume "\<exists>p. js_mul (js_mul (Num b) (Math_pow2 a)) (Num m) = Num p \<and> 0 \<le> p"
    then obtain p where "js_mul (js_mul (Num b) (Math_pow2 a)) (Num m) = Num p" "0 \<le> p"
      by blast
    with M show ?thesis by (auto simp: Math_min_def)
  qed
qed

lemma random_factor_range:
  shows "\<exists>c. js_sub (js_mul (Math_random seed) (Num 2)) (Num 1) = Num c \<and> - 1 \<le> c \<and> c \<le> 1"
proof -
  have f: "0 \<le> frac seed * 2" "frac seed * 2 \<le> 2" using frac_lt_1 [of seed] by simp_all
  then have "\<bar>frac seed * 2\<bar> \<le> 2 ^ 1020" by simp
  then obtain c0 where c0: "round_result (frac seed * 2) = Num c0"
    using round_result_small by blast
  have two: "round_result 2 = Num 2" by (simp add: round_result_numeral)
  from rr_mono [OF f(1) round_result_0 c0] have l0: "0 \<le> c0" .
  from rr_mono [OF f(2) c0 two] have u0: "c0 \<le> 2" .
  from l0 u0 have "\<bar>c0 + - 1\<bar> \<le> 2 ^ 1020" by simp
  then obtain c where c: "round_result (c0 + - 1) = Num c"
    using round_result_small by blast
  from l0 have "- 1 \<le> c0 + - 1" by simp
  from rr_mono [OF this round_result_neg_1 c] have l: "- 1 \<le> c" .
  from u0 have "c0 + - 1 \<le> 1" by simp
  from rr_mono [OF this c round_result_1] have u: "c \<le> 1" .
  from c0 c l u show ?thesis by (simp add: js_sub_def Math_random_def)
qed

lemma big_bounds:
  "(2 :: real) ^ 1000 \<le> 2 ^ 1020" "5 * (2 :: real) ^ 1000 + 4 \<le> 2 ^ 1020"
  "2002 * (2 :: real) ^ 900 + 1 \<le> 2 ^ 1020" "4006 * (2 :: real) ^ 900 + 3 \<le> 2 ^ 1000"
  "(0 :: real) \<le> 2 ^ 1000" "(0 :: real) \<le> 2 ^ 900"
  by simp_all

text \<open>
  The jitter on a delay between 0 and a cap: the result is a number from 0 to the
  cap plus the cap times the jitter factor, both as computed in doubles.
\<close>

lemma add_jitter_capped:
  assumes jf: "0 \<le> jf" "jf \<le> 1"
    and x: "0 \<le> x" "x \<le> M"
    and M: "M \<le> 2 ^ 1000"
  shows "\<exists>d B. add_jitter seed jf (Num x) = Num d
               \<and> js_add (Num M) (js_mul (Num M) (Num jf)) = Num B
               \<and> 0 \<le> d \<and> d \<le> B"
proof -
  define K :: real where "K = 2 ^ 1000"
  have K: "M \<le> K" "K \<le> 2 ^ 1020" "5 * K + 4 \<le> 2 ^ 1020" "0 \<le> K"
    using M big_bounds by (simp_all add: K_def)
  obtain c where c: "js_sub (js_mul (Math_random seed) (Num 2)) (Num 1) = Num c"
    "- 1 \<le> c" "c \<le> 1"
    using random_factor_range  by blast
  from x have M0: "0 \<le> M" by simp
  have xj: "0 \<le> x * jf" "x * jf \<le> M * jf" "M * jf \<le> M" "0 \<le> M * jf"
    using x jf M0 by (simp_all add: mult_right_mono mult_left_le)
  then have "\<bar>x * jf\<bar> \<le> 2 ^ 1020" "\<bar>M * jf\<bar> \<le> 2 ^ 1020" using K by linarith+
  then obtain a aM where a: "round_result (x * jf) = Num a" "\<bar>a\<bar> \<le> 2 * \<bar>x * jf\<bar> + 1"
    and aM: "round_result (M * jf) = Num aM" "\<bar>aM\<bar> \<le> 2 * \<bar>M * jf\<bar> + 1"
    using round_result_small by meson
  from rr_mono [OF xj(1) round_result_0 a(1)] have a0: "0 \<le> a" .
  from rr_mono [OF xj(2) a(1) aM(1)] have a_le: "a \<le> aM" .
  from a(2) xj K have ab: "a \<le> 2 * K + 1" by linarith
  from aM(2) xj K have aMb: "aM \<le> 2 * K + 1" by linarith
  have "a * c \<le> a * 1" using c(3) a0 by (rule mult_left_mono)
  moreover have "a * (- 1) \<le> a * c" using c(2) a0 by (rule mult_left_mono)
  ultimately have ac: "a * c \<le> a" "- a \<le> a * c" by simp_all
  then have "\<bar>a * c\<bar> \<le> a" by linarith
  with ab K have "\<bar>a * c\<bar> \<le> 2 ^ 1020" by linarith
  then obtain j where j: "round_result (a * c) = Num j" "\<bar>j\<bar> \<le> 2 * \<bar>a * c\<bar> + 1"
    using round_result_small by blast
  from rr_mono [OF ac(1) j(1) rr_idem [OF a(1)]] have j_le: "j \<le> a" .
  from j(2) \<open>\<bar>a * c\<bar> \<le> a\<close> ab have jb: "\<bar>j\<bar> \<le> 4 * K + 3" by linarith
  with x K have "\<bar>x + j\<bar> \<le> 2 ^ 1020" by linarith
  then obtain s where s: "round_result (x + j) = Num s"
    using round_result_small by blast
  from M0 a0 a_le aMb K have "\<bar>M + aM\<bar> \<le> 2 ^ 1020" by linarith
  then obtain B where B: "round_result (M + aM) = Num B"
    using round_result_small by blast
  from x j_le a_le have "x + j \<le> M + aM" by linarith
  from rr_mono [OF this s B] have sB: "s \<le> B" .
  from M0 a0 a_le have "0 \<le> M + aM" by linarith
  from rr_mono [OF this round_result_0 B] have B0: "0 \<le> B" .
  have "add_jitter seed jf (Num x) = Math_max (Num 0) (Num s)"
    by (simp add: add_jitter_def Let_def c(1) a(1) j(1) s)
  moreover have "js_add (Num M) (js_mul (Num M) (Num jf)) = Num B"
    by (simp add: aM(1) B)
  ultimately show ?thesis using sB B0 by (auto simp: Math_max_def)
qed

text \<open>The jitter on any finite delay that is a rounded value.\<close>

lemma add_jitter_any:
  assumes jf: "0 \<le> jf" "jf \<le> 1"
    and h: "round_result h = Num h" "\<bar>h\<bar> \<le> 2 ^ 1000"
  shows "\<exists>d B. add_jitter seed jf (Num h) = Num d
               \<and> js_add (Num h) (js_mul (Num h) (Num jf)) = Num B
               \<and> 0 \<le> d \<and> d \<le> max 0 B"
proof (cases "0 \<le> h")
  case True
  from h(2) have "h \<le> 2 ^ 1000" by simp
  from add_jitter_capped [OF jf True order_refl this, of seed]
  show ?thesis by (metis max.coboundedI2)
next
  case False
  then have hn: "h < 0" by simp
  define K :: real where "K = 2 ^ 1000"
  have K: "\<bar>h\<bar> \<le> K" "K \<le> 2 ^ 1020" "5 * K + 4 \<le> 2 ^ 1020" "0 \<le> K"
    using h(2) big_bounds by (simp_all add: K_def)
  obtain c where c: "js_sub (js_mul (Math_random seed) (Num 2)) (Num 1) = Num c"
    "- 1 \<le> c" "c \<le> 1"
    using random_factor_range  by blast
  from hn have h0: "h \<le> 0" by simp
  have "h * 1 \<le> h * jf" using jf(2) h0 by (rule mult_left_mono_neg)
  moreover have "h * jf \<le> 0" using h0 jf(1) by (rule mult_nonpos_nonneg)
  ultimately have hj: "h \<le> h * jf" "h * jf \<le> 0" by simp_all
  then have "\<bar>h * jf\<bar> \<le> 2 ^ 1020" using K by linarith
  then obtain a where a: "round_result (h * jf) = Num a" "\<bar>a\<bar> \<le> 2 * \<bar>h * jf\<bar> + 1"
    using round_result_small by blast
  from rr_mono [OF hj(1) h(1) a(1)] have ha: "h \<le> a" .
  from rr_mono [OF hj(2) a(1) round_result_0] have a0: "a \<le> 0" .
  have "a * c \<le> a * (- 1)" using c(2) a0 by (rule mult_left_mono_neg)
  moreover have "a * 1 \<le> a * c" using c(3) a0 by (rule mult_left_mono_neg)
  ultimately have ac: "a * c \<le> - a" "a \<le> a * c" by simp_all
  then have "\<bar>a * c\<bar> \<le> - a" by linarith
  with ha K have "\<bar>a * c\<bar> \<le> 2 ^ 1020" by linarith
  then obtain j where j: "round_result (a * c) = Num j" "\<bar>j\<bar> \<le> 2 * \<bar>a * c\<bar> + 1"
    using round_result_small by blast
  have na: "round_result (- a) = Num (- a)"
    using rr_neg [OF rr_idem [OF a(1)]] .
  from rr_mono [OF ac(1) j(1) na] have j_le: "j \<le> - a" .
  from j(2) \<open>\<bar>a * c\<bar> \<le> - a\<close> ha K have "\<bar>j\<bar> \<le> 2 * K + 1" by linarith
  with K have "\<bar>h + j\<bar> \<le> 2 ^ 1020" by linarith
  then obtain s where s: "round_result (h + j) = Num s"
    using round_result_small by blast
  from ha j_le have "h + j \<le> 0" by linarith
  from rr_mono [OF this s round_result_0] have s0: "s \<le> 0" .
  from ha a0 K have "\<bar>h + a\<bar> \<le> 2 ^ 1020" by linarith
  then obtain B where B: "round_result (h + a) = Num B"
    using round_result_small by blast
  have "add_jitter seed jf (Num h) = Math_max (Num 0) (Num s)"
    by (simp add: add_jitter_def Let_def c(1) a(1) j(1) s)
  moreover have "js_add (Num h) (js_mul (Num h) (Num jf)) = Num B"
    by (simp add: a(1) B)
  ultimately show ?thesis using s0 by (auto simp: Math_max_def)
qed

text \<open>The delay a moderate retry-after number gives is finite and a rounded value.\<close>

lemma retry_after_delay_finite:
  assumes v: "\<bar>v\<bar> \<le> 2 ^ 900" and n: "\<bar>now'\<bar> \<le> 2 ^ 900"
  shows "\<exists>h. retry_after_delay now now' (Num v) = Num h \<and> round_result h = Num h
             \<and> \<bar>h\<bar> \<le> 2 ^ 1000"
proof -
  define L :: real where "L = 2 ^ 900"
  have L: "\<bar>v\<bar> \<le> L" "\<bar>now'\<bar> \<le> L" "2002 * L + 1 \<le> 2 ^ 1020" "4006 * L + 3 \<le> 2 ^ 1000" "0 \<le> L"
    using v n big_bounds by (simp_all add: L_def)
  have "\<bar>v * 1000\<bar> = 1000 * \<bar>v\<bar>" by (simp add: abs_mult)
  with L have v1: "\<bar>v * 1000\<bar> \<le> 1000 * L" by linarith
  with L have "\<bar>v * 1000\<bar> \<le> 2 ^ 1020" by linarith
  then obtain r where r: "round_result (v * 1000) = Num r" "\<bar>r\<bar> \<le> 2 * \<bar>v * 1000\<bar> + 1"
    using round_result_small by blast
  from r(2) v1 have rb: "\<bar>r\<bar> \<le> 2000 * L + 1" by linarith
  define A where "A = \<bar>r - now'\<bar>"
  have "A \<le> \<bar>r\<bar> + \<bar>now'\<bar>" by (simp add: A_def)
  with rb L(2) have t: "A \<le> 2001 * L + 1" by linarith
  with L(3,5) have "A \<le> 2 ^ 1020" by linarith
  then obtain h where h: "round_result (r - now') = Num h" "\<bar>h\<bar> \<le> 2 * A + 1"
    unfolding A_def using round_result_small by blast
  from h(2) t have "\<bar>h\<bar> \<le> 4002 * L + 3" by linarith
  with L(4,5) have hb: "\<bar>h\<bar> \<le> 2 ^ 1000" by linarith
  from rb L have rb': "\<bar>r\<bar> \<le> 2 ^ 1000" by linarith
  show ?thesis
  proof (cases "js_gt (Num v) (js_div_by (Num now) 1000)")
    case True
    then have "retry_after_delay now now' (Num v) = Num h"
      by (simp add: retry_after_delay_def js_sub_def r(1) h(1))
    with rr_idem [OF h(1)] hb show ?thesis by blast
  next
    case False
    then have "retry_after_delay now now' (Num v) = Num r"
      by (simp add: retry_after_delay_def r(1))
    with rr_idem [OF r(1)] rb' show ?thesis by blast
  qed
qed

lemma multiplier_pos: "0 < multiplier k"
  by (cases k) (simp_all add: literal_1_2_def)

text \<open>
  In real numbers the cap plus the cap times the jitter factor, computed in doubles,
  exceeds the exact \<open>M \<times> (1 + jf)\<close> by at most three roundings.
\<close>

lemma rounding_error_sum: "0 \<le> z \<Longrightarrow> rounding_error z \<le> z / 2 ^ 53 + 1 / 2 ^ 1075"
  by (simp add: rounding_error_def)

lemma round_result_above:
  assumes z: "0 \<le> z" "z \<le> 2 ^ 1020" and d: "round_result z = Num d"
  shows "d \<le> z * (1 + 1 / 2 ^ 53) + 1 / 2 ^ 1075"
proof -
  have "(2 :: real) ^ 1020 < 2 ^ 1024 - 2 ^ 970" by simp
  with z have "\<bar>z\<bar> < 2 ^ 1024 - 2 ^ 970" by simp
  from round_result_finite [OF this] d have "\<bar>d - z\<bar> \<le> rounding_error z" by simp
  with rounding_error_sum [OF z(1)] have "d \<le> z + (z / 2 ^ 53 + 1 / 2 ^ 1075)" by linarith
  then show ?thesis by (simp add: algebra_simps)
qed

lemma jitter_cap_envelope:
  assumes M: "0 \<le> M" "M \<le> 2 ^ 1000" and jf: "0 \<le> jf" "jf \<le> 1"
    and B: "js_add (Num M) (js_mul (Num M) (Num jf)) = Num B"
  shows "B \<le> M * (1 + jf) * (1 + 1 / 2 ^ 51) + 1 / 2 ^ 1073"
proof -
  define e :: real where "e = 1 / 2 ^ 53"
  define u :: real where "u = 1 / 2 ^ 1075"
  have e: "0 \<le> e" "(1 + e) * (1 + e) \<le> 1 + 1 / 2 ^ 51" by (simp_all add: e_def)
  have u: "0 \<le> u" "u * (1 + e) + u \<le> 1 / 2 ^ 1073" by (simp_all add: u_def e_def)
  from M jf have mj: "0 \<le> M * jf" "M * jf \<le> M" by (simp_all add: mult_left_le)
  with M have mj2: "M * jf \<le> 2 ^ 1020" by simp
  from B obtain p where p: "round_result (M * jf) = Num p" "round_result (M + p) = Num B"
    by (cases "round_result (M * jf)") simp_all
  from rr_mono [OF mj(1) round_result_0 p(1)] have p0: "0 \<le> p" .
  from round_result_above [OF mj(1) mj2 p(1)] have p1: "p \<le> M * jf * (1 + e) + u"
    by (simp only: e_def u_def)
  have "M * jf * (1 + e) + u \<le> 2 ^ 1000 * 2 + 1"
  proof -
    from mj M have "M * jf \<le> 2 ^ 1000" by simp
    moreover have "1 + e \<le> 2" by (simp add: e_def)
    ultimately have "M * jf * (1 + e) \<le> 2 ^ 1000 * 2" using mj(1) e(1) by (intro mult_mono) simp_all
    moreover have "u \<le> 1" by (simp add: u_def)
    ultimately show ?thesis by simp
  qed
  with p1 M have s: "0 \<le> M + p" "M + p \<le> 2 ^ 1020" using p0 by simp_all
  from round_result_above [OF s p(2)] have "B \<le> (M + p) * (1 + e) + u"
    by (simp only: e_def u_def)
  also have "(M + p) * (1 + e) \<le> (M + (M * jf * (1 + e) + u)) * (1 + e)"
    using p1 e(1) by (intro mult_right_mono) simp_all
  also have "(M + (M * jf * (1 + e) + u)) * (1 + e) + u
      = M * (1 + e) + M * jf * ((1 + e) * (1 + e)) + (u * (1 + e) + u)"
    by (simp add: algebra_simps)
  also have "M * (1 + e) \<le> M * ((1 + e) * (1 + e))"
    using M(1) e(1) by (intro mult_left_mono) (simp_all add: algebra_simps)
  also have "M * ((1 + e) * (1 + e)) + M * jf * ((1 + e) * (1 + e))
      = M * (1 + jf) * ((1 + e) * (1 + e))"
    by (simp add: algebra_simps)
  also have "M * (1 + jf) * ((1 + e) * (1 + e)) \<le> M * (1 + jf) * (1 + 1 / 2 ^ 51)"
    using M(1) jf(1) e(2) by (intro mult_left_mono) simp_all
  also note u(2)
  finally show ?thesis by simp
qed

subsection \<open>Shared lemmas\<close>

lemma starts_with_append: "starts_with (sub @ rest) sub"
  by (induction sub) simp_all

lemma str_includes_here: "str_includes (sub @ rest) sub"
proof (cases "sub @ rest")
  case Nil
  then show ?thesis by simp
next
  case (Cons a list)
  have "starts_with (sub @ rest) sub" by (rule starts_with_append)
  then show ?thesis by (simp add: Cons)
qed

lemma str_includes_later: "str_includes s sub \<Longrightarrow> str_includes (pre @ s) sub"
  by (induction pre) simp_all

lemma reason_mentions_cost:
  "str_includes (''Retry cost threshold exceeded ($'' @ x @ '')'') ''cost threshold exceeded''"
proof -
  have "str_includes (''cost threshold exceeded'' @ ('' ($'' @ x @ '')'')) ''cost threshold exceeded''"
    by (rule str_includes_here)
  then have "str_includes (''Retry '' @ (''cost threshold exceeded'' @ ('' ($'' @ x @ '')'')))
      ''cost threshold exceeded''"
    by (rule str_includes_later)
  then show ?thesis by simp
qed








lemma classifyError_rate_limit_failure:
  "classifyError rt rate_limit_failure = Inr RATE_LIMIT"
  by (simp add: rate_limit_failure_def classifyError_def status_of_def js_or_def message_of_def
      strict_eq_num_def)

lemma cost_check_skipped:
  "estimatedTokens = None \<or> estimatedTokens = Some 0 \<Longrightarrow> cost_check rt this estimatedTokens = Inr this"
  by (auto simp: cost_check_def split: option.splits bool.splits)

lemma cost_check_run:
  "so_costAwareRetry (options this) \<Longrightarrow> so_modelInfo (options this) = Some mi \<Longrightarrow> tokens \<noteq> 0 \<Longrightarrow>
   cost_check rt this (Some tokens) =
     (if js_gt (js_add (totalRetryCost this) (estimateRetryCost mi tokens None))
           (Num (so_maxCostThreshold (options this)))
      then Inl \<lparr> r_shouldRetry = False, r_delay = Num 0,
                r_reason = ''Retry cost threshold exceeded ($''
                           @ NumberToString rt (so_maxCostThreshold (options this)) @ '')'' \<rparr>
      else Inr (this\<lparr> totalRetryCost :=
                       js_add (totalRetryCost this) (estimateRetryCost mi tokens None) \<rparr>))"
  by (simp add: cost_check_def Let_def)

lemma cost_check_denial: "cost_check rt this estimatedTokens = Inl denial \<Longrightarrow> \<not> r_shouldRetry denial"
  by (auto simp: cost_check_def Let_def split: option.splits bool.splits if_splits)

text \<open>One million tokens at an input price of 3 cost exactly 3.\<close>

lemma estimateRetryCost_million:
  "inputPrice mi = Some 3 \<Longrightarrow> estimateRetryCost mi 1000000 None = Num 3"
  by (simp add: estimateRetryCost_def round_result_0 round_result_1 round_result_numeral)

text \<open>
  Without output tokens the estimate is the input cost: the quotient and the product
  are rounded, and adding the output cost 0 changes nothing.
\<close>

lemma estimateRetryCost_input:
  assumes q: "round_result (tokens / 1000000) = Num q"
    and c: "round_result (q * (case inputPrice mi of None \<Rightarrow> 0 | Some p \<Rightarrow> p)) = Num c"
  shows "estimateRetryCost mi tokens None = Num c"
proof -
  have "round_result (c + 0) = Num c" using rr_idem [OF c] by simp
  then show ?thesis by (simp add: estimateRetryCost_def q c round_result_0)
qed

text \<open>An estimate that is a number is a stored double: rounding it again changes nothing.\<close>

lemma estimateRetryCost_stored:
  assumes "estimateRetryCost mi tokens out = Num c"
  shows "round_result c = Num c"
proof -
  obtain a b where ab: "estimateRetryCost mi tokens out = js_add a b"
    by (simp add: estimateRetryCost_def Let_def)
  with assms have "js_add a b = Num c" by simp
  then obtain x y where "round_result (x + y) = Num c"
    by (cases a; cases b) simp_all
  then show ?thesis by (rule rr_idem)
qed

text \<open>Ten thousand tokens at a price of 3 cost the double of 0.03.\<close>

lemma estimateRetryCost_ten_thousand:
  assumes "inputPrice mi = Some 3"
  shows "estimateRetryCost mi 10000 None = Num (1080863910568919 / 36028797018963968)"
proof -
  have q: "round_result (10000 / 1000000) = Num (5764607523034235 / 2 ^ 59)"
    using round_result_normal [of 59 "10000 / 1000000"] by (simp add: round_half_even_def)
  have "round_result (5764607523034235 / 2 ^ 59 * 3) = Num (1080863910568919 / 36028797018963968)"
    using round_result_normal [of 58 "5764607523034235 / 2 ^ 59 * 3"]
    by (simp add: round_half_even_def)
  with assms have c: "round_result (5764607523034235 / 2 ^ 59
      * (case inputPrice mi of None \<Rightarrow> 0 | Some p \<Rightarrow> p)) = Num (1080863910568919 / 36028797018963968)"
    by simp
  from q c show ?thesis by (rule estimateRetryCost_input)
qed

text \<open>Past classification, custom condition and eligibility, the call is the cost check and the delay.\<close>

lemma shouldRetry_eligible:
  "classifyError rt error = Inr k \<Longrightarrow> custom_condition_passes this error attempt \<Longrightarrow>
   shouldRetryError k attempt (so_maxRetries (options this)) (as_options (options this)) \<Longrightarrow>
   shouldRetry rt now now' seed this error attempt estimatedTokens =
     (case cost_check rt this estimatedTokens of
        Inl denial \<Rightarrow> (Inr denial, this)
      | Inr this' \<Rightarrow>
          (case calculateRetryDelay rt now now' seed attempt
                  (so_baseDelay (options this')) (so_maxDelay (options this'))
                  k (retryAfter_of error) (Some (so_jitterFactor (options this'))) of
             Inl e \<Rightarrow> (Inl e, this')
           | Inr delay \<Rightarrow>
               (Inr \<lparr> r_shouldRetry = True, r_delay = delay,
                      r_reason = ''Retrying '' @ ErrorType_value k @ '' error with ''
                                 @ show_num rt delay @ ''ms delay'' \<rparr>, this')))"
  by (simp add: shouldRetry_def custom_condition_passes_def split: option.splits)

lemma ToString_falsy: "\<not> truthy v \<Longrightarrow> \<exists>s. ToString rt v = Inr s"
  by (cases v rule: truthy.cases) simp_all

text \<open>The delay computation raises exactly when the retry hint has no string form.\<close>

lemma calculateRetryDelay_returns:
  "(\<exists>d. calculateRetryDelay rt now now' seed attempt b m k hdr jf = Inr d)
     = (\<exists>s. ToString rt hdr = Inr s)"
  using ToString_falsy [of hdr rt]
  by (cases "ToString rt hdr") (auto simp: calculateRetryDelay_def Let_def)

lemma recordFailures_snoc: "recordFailures (clock @ [t]) cb = recordFailure t (recordFailures clock cb)"
  by (simp add: recordFailures_def)

text \<open>The breaker after any run of failures from its initial state, for a positive whole threshold.\<close>

lemma recordFailures_new:
  assumes "0 < n"
  shows "recordFailures clock (new_CircuitBreaker (Some (real n)) timeout) =
     \<lparr> failures = length clock,
       lastFailureTime = (if clock = [] then 0 else last clock),
       state = (if n \<le> length clock then Open else Closed),
       failureThreshold = real n,
       recoveryTimeout = (case timeout of None \<Rightarrow> 60000 | Some t \<Rightarrow> t) \<rparr>"
proof (induction clock rule: rev_induct)
  case Nil
  from assms show ?case by (simp add: recordFailures_def new_CircuitBreaker_def)
next
  case (snoc t clock)
  show ?case
    by (simp add: recordFailures_snoc snoc.IH recordFailure_def Let_def)
qed

lemma shouldRetry_without_cost_check:
  assumes h: "classifyError rt error = Inr k" "custom_condition_passes this error attempt"
      "shouldRetryError k attempt (so_maxRetries (options this)) (as_options (options this))"
    and s: "ToString rt (retryAfter_of error) = Inr s"
    and t: "estimatedTokens = None \<or> estimatedTokens = Some 0"
  shows "\<exists>d. shouldRetry rt now now' seed this error attempt estimatedTokens = (Inr d, this)
             \<and> r_shouldRetry d"
proof -
  from s obtain d where d: "calculateRetryDelay rt now now' seed attempt
        (so_baseDelay (options this)) (so_maxDelay (options this))
        k (retryAfter_of error) (Some (so_jitterFactor (options this))) = Inr d"
    using calculateRetryDelay_returns by blast
  show ?thesis
    by (simp add: shouldRetry_eligible [OF h] cost_check_skipped [OF t] d)
qed

text \<open>Facts about the strategy and the failure of the tests.\<close>

lemma test_strategy_options:
  "options (test_strategy\<lparr> totalRetryCost := c \<rparr>) =
     \<lparr> so_maxRetries = 5, so_baseDelay = 1000, so_maxDelay = 30000, so_retryAllErrors = False,
       so_costAwareRetry = True,
       so_modelInfo = Some \<lparr> inputPrice = Some 3, outputPrice = Some 15 \<rparr>,
       so_maxCostThreshold = literal_0_1, so_customRetryCondition = None,
       so_jitterFactor = literal_0_1 \<rparr>"
  "options test_strategy = options (test_strategy\<lparr> totalRetryCost := c \<rparr>)"
  "totalRetryCost test_strategy = Num 0"
  by (simp_all add: test_strategy_def new_EnhancedRetryStrategy_def no_options_def)

lemma rate_limit_failure_eligible:
  "custom_condition_passes (test_strategy\<lparr> totalRetryCost := c \<rparr>) rate_limit_failure attempt"
  "custom_condition_passes test_strategy rate_limit_failure attempt"
  "shouldRetryError RATE_LIMIT 0
     (so_maxRetries (options (test_strategy\<lparr> totalRetryCost := c \<rparr>)))
     (as_options (options (test_strategy\<lparr> totalRetryCost := c \<rparr>)))"
  "shouldRetryError RATE_LIMIT 0 (so_maxRetries (options test_strategy))
     (as_options (options test_strategy))"
  "ToString rt (retryAfter_of rate_limit_failure) = Inr ''undefined''"
     apply (simp add: custom_condition_passes_def test_strategy_options(1))
    apply (simp add: custom_condition_passes_def test_strategy_options(2) [of "Num 0"] test_strategy_options(1))
    apply (simp add: shouldRetryError_def test_strategy_options(1))
   apply (simp add: shouldRetryError_def test_strategy_options(2) [of "Num 0"] test_strategy_options(1))
  apply (simp add: retryAfter_of_def rate_limit_failure_def js_or_def)
  done

subsection \<open>The claims\<close>

text \<open>
  C1 (as amended). \<^verbatim>\<open>shouldRetry\<close> does not consult a circuit breaker. It grants a
  retry exactly when the failure classifies without raising, no custom condition
  fails, the error kind is eligible at this attempt, the cost check does not deny and
  the retry hint has a string form. No breaker state enters the decision.
\<close>

theorem shouldRetry_grant_iff:
  "(\<exists>d. fst (shouldRetry rt now now' random this error attempt estimatedTokens) = Inr d
         \<and> r_shouldRetry d)
   = (\<exists>k. classifyError rt error = Inr k
          \<and> custom_condition_passes this error attempt
          \<and> shouldRetryError k attempt (so_maxRetries (options this)) (as_options (options this))
          \<and> (\<exists>this'. cost_check rt this estimatedTokens = Inr this')
          \<and> (\<exists>s. ToString rt (retryAfter_of error) = Inr s))"
proof (cases "classifyError rt error")
  case (Inl e)
  then show ?thesis by (simp add: shouldRetry_def)
next
  case (Inr k)
  show ?thesis
  proof (cases "custom_condition_passes this error attempt
      \<and> shouldRetryError k attempt (so_maxRetries (options this)) (as_options (options this))")
    case False
    with Inr show ?thesis
      by (auto simp: shouldRetry_def custom_condition_passes_def split: option.splits)
  next
    case True
    then have h: "custom_condition_passes this error attempt"
      "shouldRetryError k attempt (so_maxRetries (options this)) (as_options (options this))"
      by simp_all
    show ?thesis
    proof (cases "cost_check rt this estimatedTokens")
      case (Inl denial)
      then have "\<not> r_shouldRetry denial" by (rule cost_check_denial)
      with Inl Inr h show ?thesis
        by (simp add: shouldRetry_eligible [OF Inr h])
    next
      case c: (Inr this')
      show ?thesis
      proof (cases "ToString rt (retryAfter_of error)")
        case (Inl e)
        then have "\<not> (\<exists>d. calculateRetryDelay rt now now' random attempt
            (so_baseDelay (options this')) (so_maxDelay (options this'))
            k (retryAfter_of error) (Some (so_jitterFactor (options this'))) = Inr d)"
          by (simp add: calculateRetryDelay_returns)
        with Inl c Inr h show ?thesis
          by (auto simp: shouldRetry_eligible [OF Inr h] split: sum.splits)
      next
        case s: (Inr s)
        then obtain d where "calculateRetryDelay rt now now' random attempt
            (so_baseDelay (options this')) (so_maxDelay (options this'))
            k (retryAfter_of error) (Some (so_jitterFactor (options this'))) = Inr d"
          using calculateRetryDelay_returns by blast
        with s c Inr h show ?thesis
          by (simp add: shouldRetry_eligible [OF Inr h])
      qed
    qed
  qed
qed

theorem shouldRetry_grant_iff_witness:
  "\<exists>d. fst (shouldRetry plain_runtime 1000 1000 0 test_strategy rate_limit_failure 0 None) = Inr d
       \<and> r_shouldRetry d"
proof -
  have "\<exists>k. classifyError plain_runtime rate_limit_failure = Inr k
          \<and> custom_condition_passes test_strategy rate_limit_failure 0
          \<and> shouldRetryError k 0 (so_maxRetries (options test_strategy)) (as_options (options test_strategy))
          \<and> (\<exists>this'. cost_check plain_runtime test_strategy None = Inr this')
          \<and> (\<exists>s. ToString plain_runtime (retryAfter_of rate_limit_failure) = Inr s)"
    by (simp add: classifyError_rate_limit_failure rate_limit_failure_eligible cost_check_skipped)
  then show ?thesis
    using shouldRetry_grant_iff [of plain_runtime 1000 1000 0 test_strategy rate_limit_failure 0 None]
    by blast
qed

text \<open>
  C1 as stated does not hold: after three failures a breaker with threshold 3 is open
  and its gate refuses the request at time 1000, and \<^verbatim>\<open>shouldRetry\<close> at that same
  time grants a retry of a rate limit failure.
\<close>

theorem shouldRetry_grants_while_breaker_open:
  "fst (allowRequest 1000
          (recordFailures [100, 200, 300] (new_CircuitBreaker (Some 3) (Some 60000)))) = False
   \<and> (\<exists>d. shouldRetry plain_runtime 1000 1000 0 test_strategy rate_limit_failure 0 None
             = (Inr d, test_strategy)
          \<and> r_shouldRetry d)"
proof -
  have "fst (allowRequest 1000
          (recordFailures [100, 200, 300] (new_CircuitBreaker (Some 3) (Some 60000)))) = False"
    by (simp add: recordFailures_def recordFailure_def new_CircuitBreaker_def allowRequest_def Let_def)
  moreover have "\<exists>d. shouldRetry plain_runtime 1000 1000 0 test_strategy rate_limit_failure 0 None
             = (Inr d, test_strategy) \<and> r_shouldRetry d"
    by (rule shouldRetry_without_cost_check
        [OF classifyError_rate_limit_failure rate_limit_failure_eligible(2)
          rate_limit_failure_eligible(4) rate_limit_failure_eligible(5)]) simp
  ultimately show ?thesis by simp
qed

text \<open>
  C2. \<^verbatim>\<open>classifyError\<close> is not total: on null and on undefined the read of
  \<^verbatim>\<open>error.code\<close> raises TypeError, and so does the call of \<^verbatim>\<open>toLowerCase\<close> on a
  message that is a number. The empty object classifies as unknown.
\<close>

theorem classifyError_raises_on_null:
  "classifyError rt JNull = Inl TypeError
   \<and> classifyError rt JUndefined = Inl TypeError
   \<and> classifyError rt (JObject [(''message'', JNumber (Num 42))]) = Inl TypeError
   \<and> classifyError rt (JObject []) = Inr UNKNOWN_ERROR"
  by (simp add: classifyError_def status_of_def message_of_def js_or_def strict_eq_num_def
      strict_eq_str_def status_5xx_def js_ge_def js_lt_def)

text \<open>
  C3 (as amended). For every caching configuration whose \<^verbatim>\<open>minTokensForCaching\<close> is
  positive, the default one included, \<^verbatim>\<open>shouldCacheContent\<close> on the empty string
  returns false and does not raise.
\<close>

theorem shouldCacheContent_empty:
  "0 < minTokensForCaching (case config of None \<Rightarrow> DEFAULT_CACHE_CONFIG | Some c \<Rightarrow> c) \<Longrightarrow>
   shouldCacheContent (Some []) config = Inr False"
  by (simp add: shouldCacheContent_def estimateTokenCount_def)

theorem shouldCacheContent_empty_witness:
  "shouldCacheContent (Some []) None = Inr False"
  using shouldCacheContent_empty [of None] by (simp add: DEFAULT_CACHE_CONFIG_def)

text \<open>
  C3 as stated does not hold for every configuration: with a threshold of 0 the empty
  string, estimated at 0 tokens, is cached.
\<close>

theorem shouldCacheContent_empty_zero_threshold:
  "shouldCacheContent (Some [])
     (Some \<lparr> minTokensForCaching = 0, aggressiveCaching = True,
             cacheTtl = \<lparr> systemPrompt = 3600, userMessages = 1800, longContent = 900 \<rparr> \<rparr>)
   = Inr True"
  by (simp add: shouldCacheContent_def estimateTokenCount_def)

text \<open>Null or undefined content raises at \<^verbatim>\<open>text.length\<close>, whatever the configuration.\<close>

lemma shouldCacheContent_null: "shouldCacheContent None config = Inl TypeError"
  by (simp add: shouldCacheContent_def estimateTokenCount_def)

text \<open>
  C4 (as amended). For a jitter factor in [0, 1], in double arithmetic: without a
  retry hint, with a base delay of at least 0 (and above 0
  from attempt 1024 on, where the power of two is infinite) and a maximal delay from 0
  to \<open>2\<^sup>1\<^sup>0\<^sup>0\<^sup>0\<close>, the delay is a number from 0 to maxDelay + maxDelay \<times> jitterFactor
  as computed in doubles, which is at most
  \<open>maxDelay \<times> (1 + jitterFactor) \<times> (1 + 2\<^sup>-\<^sup>5\<^sup>1) + 2\<^sup>-\<^sup>1\<^sup>0\<^sup>7\<^sup>3\<close>. With a hint that \<^verbatim>\<open>parseInt\<close> reads as a number of
  moderate size, the delay is a number from 0 to \<open>h + h \<times> jitterFactor\<close>, floored at 0,
  where \<open>h\<close> is the hinted delay; maxDelay does not cap it.
\<close>

theorem calculateRetryDelay_bounds:
  "0 \<le> jf \<Longrightarrow> jf \<le> 1 \<Longrightarrow>
   (\<not> truthy hint \<and> 0 \<le> base_delay \<and> (0 < base_delay \<or> attempt < 1024)
      \<and> 0 \<le> max_delay \<and> max_delay \<le> 2 ^ 1000 \<longrightarrow>
      (\<exists>d B. calculateRetryDelay rt now now' random attempt base_delay max_delay k hint (Some jf)
                = Inr (Num d)
             \<and> js_add (Num max_delay) (js_mul (Num max_delay) (Num jf)) = Num B
             \<and> 0 \<le> d \<and> d \<le> B
             \<and> B \<le> max_delay * (1 + jf) * (1 + 1 / 2 ^ 51) + 1 / 2 ^ 1073))
   \<and> (truthy hint \<longrightarrow>
      (\<forall>s v. ToString rt hint = Inr s \<and> parseInt10 s = Num v
               \<and> \<bar>v\<bar> \<le> 2 ^ 900 \<and> \<bar>now'\<bar> \<le> 2 ^ 900 \<longrightarrow>
        (\<exists>d h B. retry_after_delay now now' (Num v) = Num h
                 \<and> calculateRetryDelay rt now now' random attempt base_delay max_delay k hint (Some jf)
                     = Inr (Num d)
                 \<and> js_add (Num h) (js_mul (Num h) (Num jf)) = Num B
                 \<and> 0 \<le> d \<and> d \<le> max 0 B)))"
proof -
  assume jf: "0 \<le> jf" "jf \<le> 1"
  have nohint: "\<exists>d B. calculateRetryDelay rt now now' random attempt base_delay max_delay k hint (Some jf)
                = Inr (Num d)
             \<and> js_add (Num max_delay) (js_mul (Num max_delay) (Num jf)) = Num B
             \<and> 0 \<le> d \<and> d \<le> B
             \<and> B \<le> max_delay * (1 + jf) * (1 + 1 / 2 ^ 51) + 1 / 2 ^ 1073"
    if h: "\<not> truthy hint" and b: "0 \<le> base_delay" "0 < base_delay \<or> attempt < 1024"
      and m: "0 \<le> max_delay" "max_delay \<le> 2 ^ 1000"
  proof -
    obtain x where x: "Math_min (Num max_delay)
          (js_mul (js_mul (Num base_delay) (Math_pow2 attempt)) (Num (multiplier k))) = Num x"
        "0 \<le> x" "x \<le> max_delay"
      using backoff_delay_range [OF b m(1) multiplier_pos] by blast
    from add_jitter_capped [OF jf x(2) x(3) m(2), of random]
    obtain d B where d: "add_jitter random jf (Num x) = Num d"
        "js_add (Num max_delay) (js_mul (Num max_delay) (Num jf)) = Num B" "0 \<le> d" "d \<le> B"
      by blast
    from jitter_cap_envelope [OF m jf d(2)]
    have "B \<le> max_delay * (1 + jf) * (1 + 1 / 2 ^ 51) + 1 / 2 ^ 1073" .
    with d h x(1) show ?thesis by (simp add: calculateRetryDelay_def)
  qed
  have hinted: "\<exists>d h B. retry_after_delay now now' (Num v) = Num h
                 \<and> calculateRetryDelay rt now now' random attempt base_delay max_delay k hint (Some jf)
                     = Inr (Num d)
                 \<and> js_add (Num h) (js_mul (Num h) (Num jf)) = Num B
                 \<and> 0 \<le> d \<and> d \<le> max 0 B"
    if h: "truthy hint" and s: "ToString rt hint = Inr s" "parseInt10 s = Num v"
      and v: "\<bar>v\<bar> \<le> 2 ^ 900" "\<bar>now'\<bar> \<le> 2 ^ 900" for s v
  proof -
    obtain hd where hd: "retry_after_delay now now' (Num v) = Num hd"
        "round_result hd = Num hd" "\<bar>hd\<bar> \<le> 2 ^ 1000"
      using retry_after_delay_finite [OF v] by blast
    from add_jitter_any [OF jf hd(2) hd(3), of random] h s hd(1)
    show ?thesis by (simp add: calculateRetryDelay_def)
  qed
  from nohint hinted show ?thesis by blast
qed

lemma parseInt10_5: "parseInt10 ''5'' = Num 5"
  by (simp add: parseInt10_def is_space_def is_digit_def digit_value_def digits_value_def
      round_result_numeral)

theorem calculateRetryDelay_bounds_witness:
  "(\<exists>d B. calculateRetryDelay plain_runtime 1700000000000 1700000000000 (3 / 4) 2 1000 30000
             SERVER_ERROR JUndefined (Some literal_0_1) = Inr (Num d)
          \<and> js_add (Num 30000) (js_mul (Num 30000) (Num literal_0_1)) = Num B
          \<and> 0 \<le> d \<and> d \<le> B
          \<and> B \<le> 30000 * (1 + literal_0_1) * (1 + 1 / 2 ^ 51) + 1 / 2 ^ 1073)
   \<and> (\<exists>d h B. retry_after_delay 1700000000000 1700000000000 (Num 5) = Num h
          \<and> calculateRetryDelay plain_runtime 1700000000000 1700000000000 (3 / 4) 2 1000 30000
             SERVER_ERROR (JString ''5'') (Some literal_0_1) = Inr (Num d)
          \<and> js_add (Num h) (js_mul (Num h) (Num literal_0_1)) = Num B
          \<and> 0 \<le> d \<and> d \<le> max 0 B)"
proof -
  have jf: "0 \<le> literal_0_1" "literal_0_1 \<le> 1" by (simp_all add: literal_0_1_def)
  note t = calculateRetryDelay_bounds [OF jf,
      where now = 1700000000000 and now' = 1700000000000 and random = "3 / 4" and attempt = 2
        and base_delay = 1000 and max_delay = 30000 and k = SERVER_ERROR]
  from t [where hint = JUndefined] have 1: "\<exists>d B. calculateRetryDelay plain_runtime
        1700000000000 1700000000000 (3 / 4) 2 1000 30000 SERVER_ERROR JUndefined (Some literal_0_1)
          = Inr (Num d)
      \<and> js_add (Num 30000) (js_mul (Num 30000) (Num literal_0_1)) = Num B
      \<and> 0 \<le> d \<and> d \<le> B
      \<and> B \<le> 30000 * (1 + literal_0_1) * (1 + 1 / 2 ^ 51) + 1 / 2 ^ 1073"
    by simp
  have "truthy (JString ''5'')" "ToString plain_runtime (JString ''5'') = Inr ''5''"
    "parseInt10 ''5'' = Num 5" "\<bar>5 :: real\<bar> \<le> 2 ^ 900"
    "\<bar>1700000000000 :: real\<bar> \<le> 2 ^ 900"
    by (simp_all add: parseInt10_5)
  with t [where hint = "JString ''5''"] have 2: "\<exists>d h B.
        retry_after_delay 1700000000000 1700000000000 (Num 5) = Num h
      \<and> calculateRetryDelay plain_runtime 1700000000000 1700000000000 (3 / 4) 2 1000 30000
             SERVER_ERROR (JString ''5'') (Some literal_0_1) = Inr (Num d)
      \<and> js_add (Num h) (js_mul (Num h) (Num literal_0_1)) = Num B
      \<and> 0 \<le> d \<and> d \<le> max 0 B"
    by blast
  from 1 2 show ?thesis by blast
qed

text \<open>
  C4 as stated does not hold: a retry hint of 100 seconds gives a delay of 100000 ms
  with maxDelay 30000 and no jitter, above maxDelay \<times> (1 + 0).
\<close>

theorem calculateRetryDelay_hint_exceeds_maxDelay:
  "calculateRetryDelay plain_runtime 1700000000000 1700000000000 (1 / 2) 0 1000 30000 RATE_LIMIT
      (JString ''100'') (Some 0) = Inr (Num 100000)
   \<and> \<not> (100000 \<le> (30000 :: real) * (1 + 0))"
  by (simp add: calculateRetryDelay_def retry_after_delay_def parseInt10_def
      is_space_def is_digit_def digit_value_def digits_value_def round_result_numeral
      add_jitter_zero_factor)

text \<open>
  The bound is on the doubles, not on the exact product: with baseDelay and maxDelay
  10000, a jitter factor of 0.15 and the greatest random draw, the delay is 11500,
  above the exact \<open>10000 \<times> (1 + jitterFactor)\<close>, the double of 0.15 being below 0.15.
\<close>

lemma calculateRetryDelay_above_exact_bound:
  assumes "frac seed = 1 - 1 / 2 ^ 53"
  shows "calculateRetryDelay rt now now' seed 0 10000 10000 UNKNOWN_ERROR JUndefined
           (Some literal_0_15) = Inr (Num 11500)
         \<and> 10000 * (1 + literal_0_15) < 11500"
proof -
  have a: "round_result (10000 * literal_0_15) = Num 1500"
    using round_result_normal [of 42 "10000 * literal_0_15"]
    by (simp add: round_half_even_def literal_0_15_def)
  have b: "round_result ((1 - 1 / 2 ^ 53) * 2) = Num (2 - 1 / 2 ^ 52)"
    using round_result_normal [of 52 "(1 - 1 / 2 ^ 53) * 2"] by (simp add: round_half_even_def)
  have c: "round_result (2 - 1 / 2 ^ 52 + - 1) = Num (1 - 1 / 2 ^ 52)"
    using round_result_normal [of 53 "2 - 1 / 2 ^ 52 + - 1"] by (simp add: round_half_even_def)
  have d: "round_result (1500 * (1 - 1 / 2 ^ 52)) = Num (1500 - 1 / 2 ^ 42)"
    using round_result_normal [of 42 "1500 * (1 - 1 / 2 ^ 52)"] by (simp add: round_half_even_def)
  have e: "round_result (10000 + (1500 - 1 / 2 ^ 42)) = Num 11500"
    using round_result_normal [of 39 "10000 + (1500 - 1 / 2 ^ 42)"] by (simp add: round_half_even_def)
  have r: "Math_random seed = Num (1 - 1 / 2 ^ 53)" by (simp only: Math_random_def assms)
  have 1: "js_mul (Num 10000) (Num literal_0_15) = Num 1500" by (simp only: js_mul.simps a)
  have 2: "js_mul (Math_random seed) (Num 2) = Num (2 - 1 / 2 ^ 52)" by (simp only: r js_mul.simps b)
  have 3: "js_sub (Num (2 - 1 / 2 ^ 52)) (Num 1) = Num (1 - 1 / 2 ^ 52)"
    by (simp only: js_sub_def js_neg.simps js_add.simps c)
  have 4: "js_mul (Num 1500) (Num (1 - 1 / 2 ^ 52)) = Num (1500 - 1 / 2 ^ 42)"
    by (simp only: js_mul.simps d)
  have 5: "js_add (Num 10000) (Num (1500 - 1 / 2 ^ 42)) = Num 11500" by (simp only: js_add.simps e)
  have j: "add_jitter seed literal_0_15 (Num 10000) = Num 11500"
    by (simp only: add_jitter_def Let_def 1 2 3 4 5) (simp add: Math_max_def)
  have "calculateRetryDelay rt now now' seed 0 10000 10000 UNKNOWN_ERROR JUndefined
           (Some literal_0_15) = Inr (Num 11500)"
    by (simp add: calculateRetryDelay_def Math_pow2_def Math_min_def round_result_numeral j)
  moreover have "10000 * (1 + literal_0_15) < 11500" by (simp add: literal_0_15_def)
  ultimately show ?thesis by simp
qed

text \<open>
  Two inputs that give NaN: a hint with no leading digits, and a base delay of 0 from
  attempt 1024 on, where \<^verbatim>\<open>0 * Infinity\<close> is NaN.
\<close>

lemma calculateRetryDelay_malformed_hint:
  "calculateRetryDelay rt now now' random attempt base_delay max_delay k (JString ''soon'') jf
     = Inr NaN"
  by (simp add: calculateRetryDelay_def Let_def retry_after_delay_def add_jitter_def parseInt10_def
      is_space_def is_digit_def digit_value_def digits_value_def Math_max_def)

lemma calculateRetryDelay_zero_base_overflow:
  "calculateRetryDelay rt now now' random 1024 0 max_delay k JUndefined jf = Inr NaN"
  by (simp add: calculateRetryDelay_def Let_def add_jitter_def Math_pow2_def Math_min_def
      Math_max_def)




text \<open>
  C6. \<^verbatim>\<open>shouldRetryError\<close> equals the eligibility table: false once the attempt has
  reached maxRetries; always false for authentication and context length errors; for
  rate limit and server errors true exactly when attempt < maxRetries; for network
  errors true exactly when attempt < min(maxRetries, 3); for unknown errors, below the
  attempt cap, true exactly when retryAllErrors is set.
\<close>

theorem shouldRetryError_table:
  "shouldRetryError k a m opts = isRetryable k a m (retryAllErrors opts = Some True)
   \<and> (m \<le> int a \<longrightarrow> shouldRetryError k a m opts = False)
   \<and> shouldRetryError AUTH_ERROR a m opts = False
   \<and> shouldRetryError CONTEXT_LENGTH_ERROR a m opts = False
   \<and> shouldRetryError RATE_LIMIT a m opts = (int a < m)
   \<and> shouldRetryError SERVER_ERROR a m opts = (int a < m)
   \<and> shouldRetryError NETWORK_ERROR a m opts = (int a < min m 3)
   \<and> shouldRetryError UNKNOWN_ERROR a m opts = (int a < m \<and> retryAllErrors opts = Some True)"
  by (cases k) (auto simp: shouldRetryError_def isRetryable_def split: option.splits)

theorem shouldRetryError_table_witness:
  "(5 :: int) \<le> int 5
   \<and> shouldRetryError RATE_LIMIT 5 5 no_options = False
   \<and> shouldRetryError NETWORK_ERROR 3 5 no_options = False
   \<and> shouldRetryError NETWORK_ERROR 2 5 no_options = True
   \<and> shouldRetryError UNKNOWN_ERROR 0 5 (no_options\<lparr> retryAllErrors := Some True \<rparr>) = True"
  using shouldRetryError_table [of RATE_LIMIT 5 5 no_options]
    shouldRetryError_table [of NETWORK_ERROR 3 5 no_options]
    shouldRetryError_table [of NETWORK_ERROR 2 5 no_options]
    shouldRetryError_table [of UNKNOWN_ERROR 0 5 "no_options\<lparr> retryAllErrors := Some True \<rparr>"]
  by (simp add: isRetryable_def)

text \<open>
  C7. In cost-aware mode with model prices and a nonzero token estimate, on a failure
  that classifies, passes the custom condition and is eligible: when the accumulated
  cost plus the cost of this attempt, as the doubles the code adds and compares,
  exceeds the threshold, \<^verbatim>\<open>shouldRetry\<close> denies with a reason that includes
  "cost threshold exceeded" and leaves the strategy, so the accumulated cost, as it
  was; otherwise that sum becomes the accumulated cost, and the retry is granted when
  the retry hint has a string form. One million tokens at an input price of 3 cost
  exactly 3, so on a fresh strategy with a threshold below 3, such as 0.10, the call
  denies.
\<close>

theorem shouldRetry_cost_threshold:
  "classifyError rt error = Inr k \<Longrightarrow> custom_condition_passes this error attempt \<Longrightarrow>
   shouldRetryError k attempt (so_maxRetries (options this)) (as_options (options this)) \<Longrightarrow>
   so_costAwareRetry (options this) \<Longrightarrow> so_modelInfo (options this) = Some mi \<Longrightarrow> tokens \<noteq> 0 \<Longrightarrow>
   (js_gt (js_add (totalRetryCost this) (estimateRetryCost mi tokens None))
       (Num (so_maxCostThreshold (options this))) \<longrightarrow>
      (\<exists>d. shouldRetry rt now now' random this error attempt (Some tokens) = (Inr d, this)
           \<and> \<not> r_shouldRetry d
           \<and> str_includes (r_reason d) ''cost threshold exceeded''))
   \<and> (\<not> js_gt (js_add (totalRetryCost this) (estimateRetryCost mi tokens None))
          (Num (so_maxCostThreshold (options this))) \<longrightarrow>
        getTotalRetryCost (snd (shouldRetry rt now now' random this error attempt (Some tokens)))
          = js_add (totalRetryCost this) (estimateRetryCost mi tokens None)
        \<and> (\<forall>s. ToString rt (retryAfter_of error) = Inr s \<longrightarrow>
              (\<exists>d. fst (shouldRetry rt now now' random this error attempt (Some tokens)) = Inr d
                   \<and> r_shouldRetry d)))
   \<and> (inputPrice mi = Some 3 \<and> tokens = 1000000 \<longrightarrow>
        estimateRetryCost mi tokens None = Num 3
        \<and> (totalRetryCost this = Num 0 \<and> so_maxCostThreshold (options this) < 3 \<longrightarrow>
             (\<exists>d. shouldRetry rt now now' random this error attempt (Some tokens) = (Inr d, this)
                  \<and> \<not> r_shouldRetry d
                  \<and> str_includes (r_reason d) ''cost threshold exceeded'')))"
proof -
  assume h: "classifyError rt error = Inr k" "custom_condition_passes this error attempt"
    "shouldRetryError k attempt (so_maxRetries (options this)) (as_options (options this))"
    and c: "so_costAwareRetry (options this)" "so_modelInfo (options this) = Some mi" "tokens \<noteq> 0"
  let ?sum = "js_add (totalRetryCost this) (estimateRetryCost mi tokens None)"
  let ?over = "js_gt ?sum (Num (so_maxCostThreshold (options this)))"
  let ?call = "shouldRetry rt now now' random this error attempt (Some tokens)"
  have deny: "\<exists>d. ?call = (Inr d, this) \<and> \<not> r_shouldRetry d
        \<and> str_includes (r_reason d) ''cost threshold exceeded''"
    if "?over"
    using that by (simp add: shouldRetry_eligible [OF h] cost_check_run [OF c] reason_mentions_cost)
  have added: "getTotalRetryCost (snd ?call) = ?sum" if "\<not> ?over"
    using that
    by (simp add: shouldRetry_eligible [OF h] cost_check_run [OF c] getTotalRetryCost_def
        split: sum.splits)
  have granted: "\<exists>d. fst ?call = Inr d \<and> r_shouldRetry d"
    if le: "\<not> ?over" and s: "ToString rt (retryAfter_of error) = Inr s" for s
  proof -
    from s obtain d where "calculateRetryDelay rt now now' random attempt
        (so_baseDelay (options this)) (so_maxDelay (options this))
        k (retryAfter_of error) (Some (so_jitterFactor (options this))) = Inr d"
      using calculateRetryDelay_returns by blast
    with le show ?thesis
      by (simp add: shouldRetry_eligible [OF h] cost_check_run [OF c])
  qed
  have cost: "estimateRetryCost mi tokens None = Num 3"
    if "inputPrice mi = Some 3" "tokens = 1000000"
    using that by (simp add: estimateRetryCost_million)
  have scenario: "?over"
    if "inputPrice mi = Some 3" "tokens = 1000000" "totalRetryCost this = Num 0"
      "so_maxCostThreshold (options this) < 3"
    using that by (simp add: estimateRetryCost_million round_result_numeral)
  from deny added granted cost scenario show ?thesis by blast
qed

theorem shouldRetry_cost_threshold_witness:
  "(\<exists>d. shouldRetry plain_runtime 0 0 0 test_strategy rate_limit_failure 0 (Some 1000000)
           = (Inr d, test_strategy)
        \<and> \<not> r_shouldRetry d
        \<and> str_includes (r_reason d) ''cost threshold exceeded'')
   \<and> getTotalRetryCost (snd (shouldRetry plain_runtime 0 0 0 test_strategy rate_limit_failure 0
                               (Some 10000)))
       = Num (1080863910568919 / 36028797018963968)
   \<and> (\<exists>d. fst (shouldRetry plain_runtime 0 0 0 test_strategy rate_limit_failure 0 (Some 10000))
             = Inr d
          \<and> r_shouldRetry d)"
proof -
  let ?mi = "\<lparr> inputPrice = Some 3, outputPrice = Some 15 \<rparr>"
  have o: "so_costAwareRetry (options test_strategy)" "so_modelInfo (options test_strategy) = Some ?mi"
    "so_maxCostThreshold (options test_strategy) = literal_0_1"
    by (simp_all add: test_strategy_options(2) [of "Num 0"] test_strategy_options(1))
  have big: "(1000000 :: real) \<noteq> 0" and small: "(10000 :: real) \<noteq> 0" by simp_all
  note a = shouldRetry_cost_threshold [where rt = plain_runtime and now = 0 and now' = 0
      and random = 0, OF classifyError_rate_limit_failure
      rate_limit_failure_eligible(2) rate_limit_failure_eligible(4) o(1) o(2) big]
  note b = shouldRetry_cost_threshold [where rt = plain_runtime and now = 0 and now' = 0
      and random = 0, OF classifyError_rate_limit_failure
      rate_limit_failure_eligible(2) rate_limit_failure_eligible(4) o(1) o(2) small]
  have ca: "inputPrice ?mi = Some 3" "totalRetryCost test_strategy = Num 0"
    "so_maxCostThreshold (options test_strategy) < 3"
    by (simp_all add: o(3) test_strategy_options(3) literal_0_1_def)
  have cost: "estimateRetryCost ?mi 10000 None = Num (1080863910568919 / 36028797018963968)"
    by (simp add: estimateRetryCost_ten_thousand)
  have cb: "js_add (totalRetryCost test_strategy) (estimateRetryCost ?mi 10000 None)
      = Num (1080863910568919 / 36028797018963968)"
    using estimateRetryCost_stored [OF cost] by (simp add: cost test_strategy_options(3))
  have cb': "\<not> js_gt (js_add (totalRetryCost test_strategy) (estimateRetryCost ?mi 10000 None))
      (Num (so_maxCostThreshold (options test_strategy)))"
    by (simp add: cb o(3) literal_0_1_def)
  from a ca have 1: "\<exists>d. shouldRetry plain_runtime 0 0 0 test_strategy rate_limit_failure 0 (Some 1000000)
           = (Inr d, test_strategy)
        \<and> \<not> r_shouldRetry d
        \<and> str_includes (r_reason d) ''cost threshold exceeded''"
    by blast
  from b cb' cb have 2: "getTotalRetryCost (snd (shouldRetry plain_runtime 0 0 0 test_strategy
        rate_limit_failure 0 (Some 10000))) = Num (1080863910568919 / 36028797018963968)"
    by simp
  from b cb' rate_limit_failure_eligible(5) [of plain_runtime]
  have 3: "\<exists>d. fst (shouldRetry plain_runtime 0 0 0 test_strategy rate_limit_failure 0 (Some 10000))
             = Inr d \<and> r_shouldRetry d"
    by blast
  from 1 2 3 show ?thesis by blast
qed

text \<open>
  Two instances at the doubles of 0.1, 0.2 and 0.3, with a price of 1 per million
  tokens. An accumulated cost of 0.1 and an estimate of 0.2 add up to the double above
  0.3, which exceeds a threshold of 0.3: the check denies. On a fresh strategy 300000
  tokens cost the double of 0.3, which does not exceed the threshold 0.3: the cost
  is added.
\<close>

lemma cost_check_sum_above_threshold:
  assumes o: "so_costAwareRetry (options this)" "so_modelInfo (options this) = Some mi"
    and p: "inputPrice mi = Some 1"
    and t: "totalRetryCost this = Num literal_0_1" "so_maxCostThreshold (options this) = literal_0_3"
  shows "\<exists>denial. cost_check rt this (Some 200000) = Inl denial"
proof -
  have q: "round_result (200000 / 1000000) = Num literal_0_2"
    using literals_rounded(2) by simp
  from p have c: "round_result (literal_0_2 * (case inputPrice mi of None \<Rightarrow> 0 | Some p \<Rightarrow> p))
      = Num literal_0_2"
    using rr_idem [OF literals_rounded(2)] by simp
  have e: "estimateRetryCost mi 200000 None = Num literal_0_2"
    using q c by (rule estimateRetryCost_input)
  have n: "(200000 :: real) \<noteq> 0" by simp
  show ?thesis
    by (simp add: cost_check_run [OF o n] e t sum_0_1_0_2)
qed

lemma cost_check_estimate_at_threshold:
  assumes o: "so_costAwareRetry (options this)" "so_modelInfo (options this) = Some mi"
    and p: "inputPrice mi = Some 1"
    and t: "totalRetryCost this = Num 0" "so_maxCostThreshold (options this) = literal_0_3"
  shows "cost_check rt this (Some 300000) = Inr (this\<lparr> totalRetryCost := Num literal_0_3 \<rparr>)"
proof -
  have q: "round_result (300000 / 1000000) = Num literal_0_3"
    using literals_rounded(3) by simp
  have i: "round_result literal_0_3 = Num literal_0_3"
    using rr_idem [OF literals_rounded(3)] .
  from p have c: "round_result (literal_0_3 * (case inputPrice mi of None \<Rightarrow> 0 | Some p \<Rightarrow> p))
      = Num literal_0_3"
    using i by simp
  have e: "estimateRetryCost mi 300000 None = Num literal_0_3"
    using q c by (rule estimateRetryCost_input)
  have n: "(300000 :: real) \<noteq> 0" by simp
  show ?thesis
    by (simp add: cost_check_run [OF o n] e t i)
qed

text \<open>
  C8. From the initial closed state of a breaker with a positive whole threshold n:
  fewer than n failures leave it closed; after n failures it is open, and while less
  than the recovery timeout has passed since the last failure \<^verbatim>\<open>allowRequest\<close>
  answers false and leaves the breaker as it is; once the timeout has passed, the next
  \<^verbatim>\<open>allowRequest\<close> answers true and makes it half-open, and \<^verbatim>\<open>recordSuccess\<close> after
  that makes it closed with no failures counted.
\<close>

theorem circuit_breaker_cycle:
  "0 < n \<Longrightarrow> length clock = n \<Longrightarrow>
   cb = recordFailures clock (new_CircuitBreaker (Some (real n)) (Some timeout)) \<Longrightarrow>
   getState cb = Open
   \<and> (now - last clock < timeout \<longrightarrow> allowRequest now cb = (False, cb))
   \<and> (timeout \<le> now - last clock \<longrightarrow>
         fst (allowRequest now cb) = True
         \<and> getState (snd (allowRequest now cb)) = HalfOpen
         \<and> getState (recordSuccess (snd (allowRequest now cb))) = Closed
         \<and> failures (recordSuccess (snd (allowRequest now cb))) = 0)
   \<and> (length earlier < n \<longrightarrow>
         getState (recordFailures earlier (new_CircuitBreaker (Some (real n)) (Some timeout))) = Closed)"
  by (auto simp: recordFailures_new Let_def getState_def allowRequest_def recordSuccess_def)

theorem circuit_breaker_cycle_witness:
  "getState (recordFailures [100, 200, 300] (new_CircuitBreaker (Some 3) (Some 1000))) = Open
   \<and> fst (allowRequest 1299 (recordFailures [100, 200, 300] (new_CircuitBreaker (Some 3) (Some 1000))))
       = False
   \<and> fst (allowRequest 1300 (recordFailures [100, 200, 300] (new_CircuitBreaker (Some 3) (Some 1000))))
       = True
   \<and> getState (snd (allowRequest 1300
                      (recordFailures [100, 200, 300] (new_CircuitBreaker (Some 3) (Some 1000)))))
       = HalfOpen
   \<and> getState (recordSuccess (snd (allowRequest 1300
                      (recordFailures [100, 200, 300] (new_CircuitBreaker (Some 3) (Some 1000))))))
       = Closed
   \<and> getState (recordFailures [100, 200] (new_CircuitBreaker (Some 3) (Some 1000))) = Closed"
  using circuit_breaker_cycle [of 3 "[100, 200, 300]"
      "recordFailures [100, 200, 300] (new_CircuitBreaker (Some 3) (Some 1000))" 1000 1299 "[100, 200]"]
    circuit_breaker_cycle [of 3 "[100, 200, 300]"
      "recordFailures [100, 200, 300] (new_CircuitBreaker (Some 3) (Some 1000))" 1000 1300 "[100, 200]"]
  by simp

text \<open>
  C9. With baseDelay 1000, maxDelay 30000, jitter factor 0, no retry hint and a rate
  limit error, the delay is exactly 2000 at attempt 0, 16000 at attempt 3 and 30000
  at attempt 10, whatever the clock and the random draw.
\<close>

theorem calculateRetryDelay_rate_limit_scenario:
  "calculateRetryDelay rt now now' random 0 1000 30000 RATE_LIMIT JUndefined (Some 0) = Inr (Num 2000)
   \<and> calculateRetryDelay rt now now' random 3 1000 30000 RATE_LIMIT JUndefined (Some 0) = Inr (Num 16000)
   \<and> calculateRetryDelay rt now now' random 10 1000 30000 RATE_LIMIT JUndefined (Some 0) = Inr (Num 30000)"
  by (simp add: calculateRetryDelay_def Math_pow2_def Math_min_def round_result_numeral
      add_jitter_zero_factor)

text \<open>
  C10. When the estimated token count is omitted or 0, \<^verbatim>\<open>shouldRetry\<close> runs no cost
  check, also in cost-aware mode with model prices present: a failure that classifies,
  passes the custom condition, is eligible and whose retry hint has a string form is
  granted a retry whatever the accumulated cost, and the strategy, so the value of
  \<^verbatim>\<open>getTotalRetryCost\<close>, is unchanged.
\<close>

theorem shouldRetry_no_estimate_skips_cost_check:
  "classifyError rt error = Inr k \<Longrightarrow> custom_condition_passes this error attempt \<Longrightarrow>
   shouldRetryError k attempt (so_maxRetries (options this)) (as_options (options this)) \<Longrightarrow>
   ToString rt (retryAfter_of error) = Inr s \<Longrightarrow>
   estimatedTokens = None \<or> estimatedTokens = Some 0 \<Longrightarrow>
   (\<exists>d. shouldRetry rt now now' random this error attempt estimatedTokens = (Inr d, this)
         \<and> r_shouldRetry d)
   \<and> getTotalRetryCost (snd (shouldRetry rt now now' random this error attempt estimatedTokens))
       = getTotalRetryCost this"
proof -
  assume h: "classifyError rt error = Inr k" "custom_condition_passes this error attempt"
    "shouldRetryError k attempt (so_maxRetries (options this)) (as_options (options this))"
    and s: "ToString rt (retryAfter_of error) = Inr s"
    and t: "estimatedTokens = None \<or> estimatedTokens = Some 0"
  from shouldRetry_without_cost_check [OF h s t, of now now' random]
  obtain d where "shouldRetry rt now now' random this error attempt estimatedTokens = (Inr d, this)"
    "r_shouldRetry d"
    by blast
  then show ?thesis by simp
qed

theorem shouldRetry_no_estimate_skips_cost_check_witness:
  "so_costAwareRetry (options (test_strategy\<lparr> totalRetryCost := Num 5 \<rparr>))
   \<and> so_modelInfo (options (test_strategy\<lparr> totalRetryCost := Num 5 \<rparr>))
       = Some \<lparr> inputPrice = Some 3, outputPrice = Some 15 \<rparr>
   \<and> js_gt (getTotalRetryCost (test_strategy\<lparr> totalRetryCost := Num 5 \<rparr>))
        (Num (so_maxCostThreshold (options (test_strategy\<lparr> totalRetryCost := Num 5 \<rparr>))))
   \<and> (\<exists>d. shouldRetry plain_runtime 0 0 0 (test_strategy\<lparr> totalRetryCost := Num 5 \<rparr>)
             rate_limit_failure 0 (Some 0)
             = (Inr d, test_strategy\<lparr> totalRetryCost := Num 5 \<rparr>)
          \<and> r_shouldRetry d)
   \<and> getTotalRetryCost (snd (shouldRetry plain_runtime 0 0 0 (test_strategy\<lparr> totalRetryCost := Num 5 \<rparr>)
                               rate_limit_failure 0 None)) = Num 5"
  using shouldRetry_no_estimate_skips_cost_check
      [where rt = plain_runtime and now = 0 and now' = 0 and random = 0
        and this = "test_strategy\<lparr> totalRetryCost := Num 5 \<rparr>" and estimatedTokens = "Some 0",
        OF classifyError_rate_limit_failure rate_limit_failure_eligible(1)
        rate_limit_failure_eligible(3) rate_limit_failure_eligible(5)]
    shouldRetry_no_estimate_skips_cost_check
      [where rt = plain_runtime and now = 0 and now' = 0 and random = 0
        and this = "test_strategy\<lparr> totalRetryCost := Num 5 \<rparr>" and estimatedTokens = None,
        OF classifyError_rate_limit_failure rate_limit_failure_eligible(1)
        rate_limit_failure_eligible(3) rate_limit_failure_eligible(5)]
  by (simp add: test_strategy_options(1) getTotalRetryCost_def literal_0_1_def)

end
